theory Spec2Isabelle
  imports Main
begin

section \<open>JavaScript values\<close>

text \<open>
  The values that flow through the asynchronous helpers: what a factory resolves with, what
  it throws, what a promise is rejected with. Objects are known by their reference
  (\<open>Obj n\<close>), so that "the identical error instance" is equality of values; \<open>Err name\<close> is an
  \<^verbatim>\<open>Error\<close> object with the given name (the \<^verbatim>\<open>canceled()\<close> error of
  \<^verbatim>\<open>vs/base/common/errors\<close> is \<open>Err ''Canceled''\<close>); \<open>PromiseRef p\<close> is the promise
  stored at address \<open>p\<close>.
\<close>

datatype jsval =
    Undefined
  | Null
  | JBool bool
  | Num int
  | Str string
  | Obj nat
  | Err string
  | PromiseRef nat
  | Arr "jsval list"

text \<open>JavaScript's \<^verbatim>\<open>ToBoolean\<close>: what \<^verbatim>\<open>if (x)\<close> and \<^verbatim>\<open>!x\<close> test.\<close>

fun truthy :: "jsval \<Rightarrow> bool" where
  "truthy Undefined = False"
| "truthy Null = False"
| "truthy (JBool b) = b"
| "truthy (Num n) = (n \<noteq> 0)"
| "truthy (Str s) = (s \<noteq> [])"
| "truthy (Obj _) = True"
| "truthy (Err _) = True"
| "truthy (PromiseRef _) = True"
| "truthy (Arr _) = True"

text \<open>The result of calling a function: it returns a value or throws one.\<close>

datatype completion = Returns jsval | Throws jsval

definition canceled :: jsval where
  "canceled = Err ''Canceled''"

section \<open>Promises and the microtask queue\<close>

text \<open>
  The helpers are written against native promises. The model is the promise machinery of
  the language: a store of promises, each pending with a list of reactions or settled with
  an outcome; a FIFO queue of jobs (microtasks); \<^verbatim>\<open>then\<close>, the resolving functions,
  \<^verbatim>\<open>Promise.resolve\<close> and \<^verbatim>\<open>Promise.all\<close>. The closures of the program are a type
  parameter \<open>'h\<close> (one constructor per closure of the source, holding what the closure
  captures), the mutable fields of the program are the type parameter \<open>'s\<close>.
\<close>

datatype outcome = Fulfilled jsval | Rejected jsval

datatype pstate = Pending | Settled outcome

fun outcome_value :: "outcome \<Rightarrow> jsval" where
  "outcome_value (Fulfilled v) = v"
| "outcome_value (Rejected e) = e"

text \<open>
  An outcome that a promise can really have: a promise is never fulfilled with a promise
  (resolving with a promise adopts its outcome instead).
\<close>

fun is_promise :: "jsval \<Rightarrow> bool" where
  "is_promise (PromiseRef _) = True"
| "is_promise _ = False"

fun proper :: "outcome \<Rightarrow> bool" where
  "proper (Fulfilled v) = (\<not> is_promise v)"
| "proper (Rejected e) = True"

text \<open>
  A function that can be handed to \<^verbatim>\<open>then\<close>: none, a resolving function of a promise
  (\<open>ResolveFn\<close>, \<open>RejectFn\<close>: the pair created with the promise, sharing its
  already-resolved flag), the resolving functions that the language creates afresh when a
  promise adopts another one (\<open>AdoptResolveFn\<close>, \<open>AdoptRejectFn\<close>), the element function of
  \<^verbatim>\<open>Promise.all\<close>, or a closure of the program.
\<close>

datatype 'h handler =
    Absent
  | ResolveFn nat
  | RejectFn nat
  | AdoptResolveFn nat
  | AdoptRejectFn nat
  | AllElementFn nat nat
  | Closure 'h

type_synonym 'h reaction = "'h handler \<times> 'h handler \<times> nat option"

record 'h promise =
  pstate :: pstate
  reactions :: "'h reaction list"
  locked :: bool

datatype 'h job =
    ReactionJob "'h handler" outcome "nat option"
  | ThenableJob nat nat

record ('h, 's) world =
  promises :: "nat \<Rightarrow> 'h promise option"
  nextp :: nat
  jobs :: "'h job list"
  alls :: "nat \<Rightarrow> (jsval list \<times> nat) option"
  prog :: 's

definition init_world :: "'s \<Rightarrow> ('h, 's) world" where
  "init_world s = \<lparr>promises = (\<lambda>_. None), nextp = 0, jobs = [], alls = (\<lambda>_. None), prog = s\<rparr>"

definition fresh_promise :: "'h promise" where
  "fresh_promise = \<lparr>pstate = Pending, reactions = [], locked = False\<rparr>"

definition new_promise :: "('h, 's) world \<Rightarrow> nat \<times> ('h, 's) world" where
  "new_promise w =
     (nextp w, w\<lparr>promises := (promises w)(nextp w \<mapsto> fresh_promise), nextp := Suc (nextp w)\<rparr>)"

definition state_of :: "('h, 's) world \<Rightarrow> nat \<Rightarrow> pstate option" where
  "state_of w p = map_option pstate (promises w p)"

definition reaction_job :: "outcome \<Rightarrow> 'h reaction \<Rightarrow> 'h job" where
  "reaction_job oc r =
     (case r of (f, g, d) \<Rightarrow> ReactionJob (case oc of Fulfilled _ \<Rightarrow> f | Rejected _ \<Rightarrow> g) oc d)"

text \<open>
  FulfillPromise and RejectPromise: a pending promise takes its outcome, and one job per
  registered reaction is queued, in registration order. A settled promise never changes.
\<close>

definition settle_promise :: "nat \<Rightarrow> outcome \<Rightarrow> ('h, 's) world \<Rightarrow> ('h, 's) world" where
  "settle_promise p oc w =
     (case promises w p of
        None \<Rightarrow> w
      | Some pr \<Rightarrow>
          if pstate pr \<noteq> Pending then w
          else w\<lparr>promises := (promises w)(p \<mapsto> pr\<lparr>pstate := Settled oc, reactions := []\<rparr>),
                 jobs := jobs w @ map (reaction_job oc) (reactions pr)\<rparr>)"

text \<open>
  Resolving with a value: a promise given itself is rejected, a promise given another
  promise queues the job that will subscribe to it, any other value fulfils.
\<close>

definition resolve_with :: "nat \<Rightarrow> jsval \<Rightarrow> ('h, 's) world \<Rightarrow> ('h, 's) world" where
  "resolve_with p v w =
     (case v of
        PromiseRef q \<Rightarrow>
          if q = p then settle_promise p (Rejected (Err ''TypeError'')) w
          else w\<lparr>jobs := jobs w @ [ThenableJob p q]\<rparr>
      | _ \<Rightarrow> settle_promise p (Fulfilled v) w)"

definition lock_promise :: "nat \<Rightarrow> ('h, 's) world \<Rightarrow> ('h, 's) world" where
  "lock_promise p w =
     (case promises w p of
        None \<Rightarrow> w
      | Some pr \<Rightarrow> w\<lparr>promises := (promises w)(p \<mapsto> pr\<lparr>locked := True\<rparr>)\<rparr>)"

definition is_locked :: "('h, 's) world \<Rightarrow> nat \<Rightarrow> bool" where
  "is_locked w p = (case promises w p of None \<Rightarrow> True | Some pr \<Rightarrow> locked pr)"

text \<open>The \<^verbatim>\<open>resolve\<close> and \<^verbatim>\<open>reject\<close> functions of a promise: only the first call counts.\<close>

definition resolve_promise :: "nat \<Rightarrow> jsval \<Rightarrow> ('h, 's) world \<Rightarrow> ('h, 's) world" where
  "resolve_promise p v w = (if is_locked w p then w else resolve_with p v (lock_promise p w))"

definition reject_promise :: "nat \<Rightarrow> jsval \<Rightarrow> ('h, 's) world \<Rightarrow> ('h, 's) world" where
  "reject_promise p e w =
     (if is_locked w p then w else settle_promise p (Rejected e) (lock_promise p w))"

text \<open>
  PerformPromiseThen: on a pending promise the reaction is appended; on a settled one its
  job is queued at once. \<open>promise_then\<close> is \<^verbatim>\<open>p.then(f, g)\<close>, which returns the derived
  promise.
\<close>

definition perform_then ::
  "nat \<Rightarrow> 'h handler \<Rightarrow> 'h handler \<Rightarrow> nat option \<Rightarrow> ('h, 's) world \<Rightarrow> ('h, 's) world" where
  "perform_then p f g d w =
     (case promises w p of
        None \<Rightarrow> w
      | Some pr \<Rightarrow>
          (case pstate pr of
             Pending \<Rightarrow>
               w\<lparr>promises := (promises w)(p \<mapsto> pr\<lparr>reactions := reactions pr @ [(f, g, d)]\<rparr>)\<rparr>
           | Settled oc \<Rightarrow> w\<lparr>jobs := jobs w @ [reaction_job oc (f, g, d)]\<rparr>))"

definition promise_then ::
  "nat \<Rightarrow> 'h handler \<Rightarrow> 'h handler \<Rightarrow> ('h, 's) world \<Rightarrow> nat \<times> ('h, 's) world" where
  "promise_then p f g w =
     (case new_promise w of (d, w1) \<Rightarrow> (d, perform_then p f g (Some d) w1))"

text \<open>\<^verbatim>\<open>Promise.resolve(x)\<close>: a promise is returned as it is, a value is wrapped.\<close>

definition promise_resolve :: "jsval \<Rightarrow> ('h, 's) world \<Rightarrow> nat \<times> ('h, 's) world" where
  "promise_resolve v w =
     (case v of
        PromiseRef p \<Rightarrow> (p, w)
      | _ \<Rightarrow> (case new_promise w of (p, w1) \<Rightarrow> (p, resolve_promise p v w1)))"

text \<open>
  \<^verbatim>\<open>Promise.all\<close>: the result promise \<open>a\<close> owns a list of values and a count of elements
  still awaited; the count starts at one, each input adds a slot and one to the count and
  is subscribed to with the element function of its index and the reject function of \<open>a\<close>;
  after the loop the count drops by one, and the promise resolves when it reaches zero.
\<close>

fun all_loop :: "nat \<Rightarrow> nat \<Rightarrow> nat list \<Rightarrow> ('h, 's) world \<Rightarrow> ('h, 's) world" where
  "all_loop a i [] w = w"
| "all_loop a i (p # ps) w =
     (case alls w a of
        None \<Rightarrow> w
      | Some (vals, remaining) \<Rightarrow>
          all_loop a (Suc i) ps
            (snd (promise_then p (AllElementFn a i) (RejectFn a)
               (w\<lparr>alls := (alls w)(a \<mapsto> (vals @ [Undefined], Suc remaining))\<rparr>))))"

definition all_countdown :: "nat \<Rightarrow> ('h, 's) world \<Rightarrow> ('h, 's) world" where
  "all_countdown a w =
     (case alls w a of
        None \<Rightarrow> w
      | Some (vals, remaining) \<Rightarrow>
          (let w1 = w\<lparr>alls := (alls w)(a \<mapsto> (vals, remaining - 1))\<rparr>
           in if remaining - 1 = 0 then resolve_promise a (Arr vals) w1 else w1))"

definition promise_all :: "nat list \<Rightarrow> ('h, 's) world \<Rightarrow> nat \<times> ('h, 's) world" where
  "promise_all ps w =
     (case new_promise w of
        (a, w1) \<Rightarrow>
          (a, all_countdown a (all_loop a 0 ps (w1\<lparr>alls := (alls w1)(a \<mapsto> ([], Suc 0))\<rparr>))))"

definition all_element :: "nat \<Rightarrow> nat \<Rightarrow> jsval \<Rightarrow> ('h, 's) world \<Rightarrow> ('h, 's) world" where
  "all_element a i v w =
     (case alls w a of
        None \<Rightarrow> w
      | Some (vals, remaining) \<Rightarrow>
          all_countdown a (w\<lparr>alls := (alls w)(a \<mapsto> (vals[i := v], remaining))\<rparr>))"

text \<open>
  Calling a handler with an argument. \<open>exec\<close> runs the closures of the program: it is the
  interpretation of the type \<open>'h\<close>, given by each program below.
\<close>

type_synonym ('h, 's) exec = "'h \<Rightarrow> jsval \<Rightarrow> ('h, 's) world \<Rightarrow> completion \<times> ('h, 's) world"

fun call_handler ::
  "('h, 's) exec \<Rightarrow> 'h handler \<Rightarrow> jsval \<Rightarrow> ('h, 's) world \<Rightarrow> completion \<times> ('h, 's) world" where
  "call_handler exec Absent v w = (Returns v, w)"
| "call_handler exec (ResolveFn p) v w = (Returns Undefined, resolve_promise p v w)"
| "call_handler exec (RejectFn p) v w = (Returns Undefined, reject_promise p v w)"
| "call_handler exec (AdoptResolveFn p) v w = (Returns Undefined, resolve_with p v w)"
| "call_handler exec (AdoptRejectFn p) v w = (Returns Undefined, settle_promise p (Rejected v) w)"
| "call_handler exec (AllElementFn a i) v w = (Returns Undefined, all_element a i v w)"
| "call_handler exec (Closure c) v w = exec c v w"

text \<open>
  Settling the derived promise of a reaction with the completion of its handler; a reaction
  without a derived promise (an \<^verbatim>\<open>await\<close>) has nothing to settle.
\<close>

fun complete_derived :: "nat option \<Rightarrow> completion \<Rightarrow> ('h, 's) world \<Rightarrow> ('h, 's) world" where
  "complete_derived None c w = w"
| "complete_derived (Some d) (Returns x) w = resolve_promise d x w"
| "complete_derived (Some d) (Throws e) w = reject_promise d e w"

fun run_job :: "('h, 's) exec \<Rightarrow> 'h job \<Rightarrow> ('h, 's) world \<Rightarrow> ('h, 's) world" where
  "run_job exec (ThenableJob p q) w = snd (promise_then q (AdoptResolveFn p) (AdoptRejectFn p) w)"
| "run_job exec (ReactionJob Absent (Fulfilled v) d) w = complete_derived d (Returns v) w"
| "run_job exec (ReactionJob Absent (Rejected e) d) w = complete_derived d (Throws e) w"
| "run_job exec (ReactionJob h oc d) w =
     (case call_handler exec h (outcome_value oc) w of (c, w1) \<Rightarrow> complete_derived d c w1)"

text \<open>
  Running the microtask queue: the jobs run one after the other, each to completion, until
  the queue is empty. A job may queue further jobs, so the loop carries fuel; \<open>drain\<close>
  returns the world when the queue empties within the fuel and \<open>None\<close> otherwise.
\<close>

fun drain :: "('h, 's) exec \<Rightarrow> nat \<Rightarrow> ('h, 's) world \<Rightarrow> ('h, 's) world option" where
  "drain exec n w =
     (case jobs w of
        [] \<Rightarrow> Some w
      | j # js \<Rightarrow>
          (case n of
             0 \<Rightarrow> None
           | Suc m \<Rightarrow> drain exec m (run_job exec j (w\<lparr>jobs := js\<rparr>))))"






section \<open>Lazy and IdleValue\<close>

text \<open>
  The executor is a function of the program's user. Its \<open>k\<close>-th call returns or throws
  \<open>executor k\<close>; the field \<open>calls\<close> counts the calls that were made.
\<close>

record lazy =
  lz_didRun :: bool
  lz_value :: jsval
  lz_error :: jsval
  lz_calls :: nat

definition Lazy_new :: lazy where
  "Lazy_new = \<lparr>lz_didRun = False, lz_value = Undefined, lz_error = Undefined, lz_calls = 0\<rparr>"

text \<open>The \<^verbatim>\<open>try { _value = executor() } catch (err) { _error = err } finally { _didRun = true }\<close>.\<close>

definition lazy_run :: "(nat \<Rightarrow> completion) \<Rightarrow> lazy \<Rightarrow> lazy" where
  "lazy_run executor l =
     (case executor (lz_calls l) of
        Returns v \<Rightarrow> l\<lparr>lz_value := v, lz_didRun := True, lz_calls := Suc (lz_calls l)\<rparr>
      | Throws e \<Rightarrow> l\<lparr>lz_error := e, lz_didRun := True, lz_calls := Suc (lz_calls l)\<rparr>)"

definition Lazy_getValue :: "(nat \<Rightarrow> completion) \<Rightarrow> lazy \<Rightarrow> completion \<times> lazy" where
  "Lazy_getValue executor l =
     (let l1 = (if \<not> lz_didRun l then lazy_run executor l else l)
      in if truthy (lz_error l1) then (Throws (lz_error l1), l1)
         else (Returns (lz_value l1), l1))"

text \<open>
  IdleValue: the constructor hands the executor to \<^verbatim>\<open>runWhenIdle\<close>; the handle it gets
  back clears the scheduled callback when disposed, once. \<open>iv_scheduled\<close> says that the
  idle callback is still to come.
\<close>

record idle_value =
  iv_didRun :: bool
  iv_value :: jsval
  iv_error :: jsval
  iv_calls :: nat
  iv_scheduled :: bool
  iv_disposed :: bool

definition IdleValue_new :: idle_value where
  "IdleValue_new =
     \<lparr>iv_didRun = False, iv_value = Undefined, iv_error = Undefined, iv_calls = 0,
      iv_scheduled = True, iv_disposed = False\<rparr>"

definition iv_executor :: "(nat \<Rightarrow> completion) \<Rightarrow> idle_value \<Rightarrow> idle_value" where
  "iv_executor executor s =
     (case executor (iv_calls s) of
        Returns v \<Rightarrow> s\<lparr>iv_value := v, iv_didRun := True, iv_calls := Suc (iv_calls s)\<rparr>
      | Throws e \<Rightarrow> s\<lparr>iv_error := e, iv_didRun := True, iv_calls := Suc (iv_calls s)\<rparr>)"

definition iv_handle_dispose :: "idle_value \<Rightarrow> idle_value" where
  "iv_handle_dispose s =
     (if iv_disposed s then s else s\<lparr>iv_disposed := True, iv_scheduled := False\<rparr>)"

text \<open>The idle callback, run by the environment if it is still scheduled.\<close>

definition iv_idle_fire :: "(nat \<Rightarrow> completion) \<Rightarrow> idle_value \<Rightarrow> idle_value" where
  "iv_idle_fire executor s =
     (if iv_scheduled s then iv_executor executor (s\<lparr>iv_scheduled := False\<rparr>) else s)"

definition IdleValue_dispose :: "idle_value \<Rightarrow> idle_value" where
  "IdleValue_dispose s = iv_handle_dispose s"

definition IdleValue_value :: "(nat \<Rightarrow> completion) \<Rightarrow> idle_value \<Rightarrow> completion \<times> idle_value" where
  "IdleValue_value executor s =
     (let s1 = (if \<not> iv_didRun s then iv_executor executor (iv_handle_dispose s) else s)
      in if truthy (iv_error s1) then (Throws (iv_error s1), s1)
         else (Returns (iv_value s1), s1))"

text \<open>
  A history of an IdleValue: accesses of \<^verbatim>\<open>value\<close>, the idle callback, \<^verbatim>\<open>dispose()\<close>, in
  any order. \<open>iv_run\<close> returns what each access observed, in order, and the final state.
\<close>

datatype iv_event = Access | IdleFire | Dispose

fun iv_run ::
  "(nat \<Rightarrow> completion) \<Rightarrow> iv_event list \<Rightarrow> idle_value \<Rightarrow> completion list \<times> idle_value" where
  "iv_run executor [] s = ([], s)"
| "iv_run executor (Access # evs) s =
     (case IdleValue_value executor s of
        (c, s1) \<Rightarrow> (case iv_run executor evs s1 of (cs, s2) \<Rightarrow> (c # cs, s2)))"
| "iv_run executor (IdleFire # evs) s = iv_run executor evs (iv_idle_fire executor s)"
| "iv_run executor (Dispose # evs) s = iv_run executor evs (IdleValue_dispose s)"

fun lazy_run_accesses ::
  "(nat \<Rightarrow> completion) \<Rightarrow> nat \<Rightarrow> lazy \<Rightarrow> completion list \<times> lazy" where
  "lazy_run_accesses executor 0 l = ([], l)"
| "lazy_run_accesses executor (Suc n) l =
     (case Lazy_getValue executor l of
        (c, l1) \<Rightarrow> (case lazy_run_accesses executor n l1 of (cs, l2) \<Rightarrow> (c # cs, l2)))"

text \<open>What an access replays once the executor has run with the completion \<open>c\<close>.\<close>

fun replayed :: "completion \<Rightarrow> completion" where
  "replayed (Returns v) = Returns v"
| "replayed (Throws e) = (if truthy e then Throws e else Returns Undefined)"

text \<open>
  What every reachable state of an IdleValue satisfies: a disposed handle has no callback
  scheduled; before the executor has run nothing is cached; after it has run it was called
  once, no callback is left, and its completion is what the fields hold.
\<close>

definition iv_inv :: "(nat \<Rightarrow> completion) \<Rightarrow> idle_value \<Rightarrow> bool" where
  "iv_inv executor s =
     ((iv_disposed s \<longrightarrow> \<not> iv_scheduled s) \<and>
      (if iv_didRun s
       then iv_calls s = 1 \<and> \<not> iv_scheduled s \<and>
            (case executor 0 of
               Returns v \<Rightarrow> iv_value s = v \<and> iv_error s = Undefined
             | Throws e \<Rightarrow> iv_error s = e \<and> iv_value s = Undefined)
       else iv_calls s = 0 \<and> iv_value s = Undefined \<and> iv_error s = Undefined))"


section \<open>Cancellation sources\<close>

text \<open>
  Modelled from the spec: \<^verbatim>\<open>CancellationTokenSource\<close> and its token, of
  \<^verbatim>\<open>vs/base/common/cancellation\<close>, which is not among the sources. The spec (4.1): a
  boolean that goes from not requested to requested once; requesting cancellation again is
  a no-op; a listener is invoked synchronously at the moment cancellation is requested, and
  immediately when it is registered after the request; disposal unregisters the listeners
  and does not cancel. \<open>cancel_calls\<close> and \<open>dispose_calls\<close> count the calls of
  \<^verbatim>\<open>cancel()\<close> and of \<^verbatim>\<open>dispose()\<close>.
\<close>

record 'l cts =
  requested :: bool
  listeners :: "'l list"
  cancel_calls :: nat
  dispose_calls :: nat

definition cts_new :: "'l cts" where
  "cts_new = \<lparr>requested = False, listeners = [], cancel_calls = 0, dispose_calls = 0\<rparr>"

text \<open>\<^verbatim>\<open>cancel()\<close>: the new state of the source and the listeners to invoke, in order.\<close>

definition cts_cancel :: "'l cts \<Rightarrow> 'l cts \<times> 'l list" where
  "cts_cancel c =
     (if requested c then (c\<lparr>cancel_calls := Suc (cancel_calls c)\<rparr>, [])
      else (c\<lparr>requested := True, listeners := [], cancel_calls := Suc (cancel_calls c)\<rparr>,
            listeners c))"

text \<open>
  \<^verbatim>\<open>token.onCancellationRequested(l)\<close>: the new state of the source, and whether the
  listener is to be invoked at once.
\<close>

definition cts_listen :: "'l \<Rightarrow> 'l cts \<Rightarrow> 'l cts \<times> bool" where
  "cts_listen l c =
     (if requested c then (c, True) else (c\<lparr>listeners := listeners c @ [l]\<rparr>, False))"

definition cts_dispose :: "'l cts \<Rightarrow> 'l cts" where
  "cts_dispose c = c\<lparr>listeners := [], dispose_calls := Suc (dispose_calls c)\<rparr>"

section \<open>createCancelablePromise\<close>

text \<open>
  The closures of \<^verbatim>\<open>createCancelablePromise\<close>: the cancellation listener
  \<^verbatim>\<open>() => reject(canceled())\<close>, and the two handlers given to
  \<^verbatim>\<open>Promise.resolve(thenable).then\<close>, each holding the source and the promise whose
  resolving functions it calls.
\<close>

datatype cp_listener = RejectCanceled nat

datatype cp_closure = OnValue nat nat | OnError nat nat

record cp_state =
  cp_sources :: "nat \<Rightarrow> cp_listener cts option"
  cp_next_source :: nat
  cp_callback_calls :: nat

type_synonym cp_world = "(cp_closure, cp_state) world"

definition cp_init :: cp_world where
  "cp_init = init_world \<lparr>cp_sources = (\<lambda>_. None), cp_next_source = 0, cp_callback_calls = 0\<rparr>"

definition cp_set_source :: "nat \<Rightarrow> cp_listener cts \<Rightarrow> cp_world \<Rightarrow> cp_world" where
  "cp_set_source s c w = w\<lparr>prog := (prog w)\<lparr>cp_sources := (cp_sources (prog w))(s \<mapsto> c)\<rparr>\<rparr>"

fun cp_run_listener :: "cp_listener \<Rightarrow> cp_world \<Rightarrow> cp_world" where
  "cp_run_listener (RejectCanceled p) w = reject_promise p canceled w"

definition cp_source_cancel :: "nat \<Rightarrow> cp_world \<Rightarrow> cp_world" where
  "cp_source_cancel s w =
     (case cp_sources (prog w) s of
        None \<Rightarrow> w
      | Some c \<Rightarrow> (case cts_cancel c of (c1, ls) \<Rightarrow> fold cp_run_listener ls (cp_set_source s c1 w)))"

definition cp_source_listen :: "nat \<Rightarrow> cp_listener \<Rightarrow> cp_world \<Rightarrow> cp_world" where
  "cp_source_listen s l w =
     (case cp_sources (prog w) s of
        None \<Rightarrow> w
      | Some c \<Rightarrow>
          (case cts_listen l c of
             (c1, now) \<Rightarrow> (if now then cp_run_listener l (cp_set_source s c1 w)
                            else cp_set_source s c1 w)))"

definition cp_source_dispose :: "nat \<Rightarrow> cp_world \<Rightarrow> cp_world" where
  "cp_source_dispose s w =
     (case cp_sources (prog w) s of None \<Rightarrow> w | Some c \<Rightarrow> cp_set_source s (cts_dispose c) w)"

text \<open>
  A cancelable promise as its creator holds it: the source behind \<^verbatim>\<open>cancel()\<close>, the
  promise behind \<^verbatim>\<open>then\<close>/\<^verbatim>\<open>catch\<close>/\<^verbatim>\<open>finally\<close>, and (for the environment, which
  settles it) the promise that the callback returned.
\<close>

record cancelable =
  cb_source :: nat
  cb_promise :: nat
  cb_underlying :: nat

text \<open>
  The callback is the user's: it is called once with the token and returns a promise that
  is pending; the environment settles it later.
\<close>

definition createCancelablePromise :: "cp_world \<Rightarrow> cancelable \<times> cp_world" where
  "createCancelablePromise w =
     (let s = cp_next_source (prog w);
          w1 = (cp_set_source s cts_new w)
                 \<lparr>prog := (prog (cp_set_source s cts_new w))\<lparr>cp_next_source := Suc s\<rparr>\<rparr>;
          (thenable, w2) = new_promise w1;
          w3 = w2\<lparr>prog := (prog w2)\<lparr>cp_callback_calls := Suc (cp_callback_calls (prog w2))\<rparr>\<rparr>;
          (promise, w4) = new_promise w3;
          w5 = cp_source_listen s (RejectCanceled promise) w4;
          (t, w6) = promise_resolve (PromiseRef thenable) w5;
          (d, w7) = promise_then t (Closure (OnValue s promise)) (Closure (OnError s promise)) w6
      in (\<lparr>cb_source = s, cb_promise = promise, cb_underlying = thenable\<rparr>, w7))"

definition cancelable_cancel :: "cancelable \<Rightarrow> cp_world \<Rightarrow> cp_world" where
  "cancelable_cancel c w = cp_source_cancel (cb_source c) w"

fun cp_exec :: "(cp_closure, cp_state) exec" where
  "cp_exec (OnValue s p) v w = (Returns Undefined, resolve_promise p v (cp_source_dispose s w))"
| "cp_exec (OnError s p) e w = (Returns Undefined, reject_promise p e (cp_source_dispose s w))"

text \<open>
  One turn of the event loop: something happens (a call from outside, a promise of the
  environment settling), then the microtask queue runs until it is empty.
\<close>

definition cp_turn :: "nat \<Rightarrow> cp_world \<Rightarrow> cp_world option" where
  "cp_turn n w = drain cp_exec n w"


section \<open>Throttler\<close>

text \<open>
  The fields of a Throttler, and a log of the physical factory invocations: which factory
  was called and which promise it returned. A factory is known by a number; it is the
  user's function, it returns a pending promise that the environment settles later.
\<close>

record th_state =
  activePromise :: "nat option"
  queuedPromise :: "nat option"
  queuedPromiseFactory :: "nat option"
  invoked :: "(nat \<times> nat) list"

text \<open>
  The closures of \<^verbatim>\<open>queue\<close>: \<^verbatim>\<open>onComplete\<close>, and the two handlers on the active
  promise, which hold the resolving functions of the promise returned to the caller.
\<close>

datatype th_closure = OnComplete | ActiveDone nat | ActiveFailed nat

type_synonym th_world = "(th_closure, th_state) world"

definition Throttler_new :: th_world where
  "Throttler_new =
     init_world \<lparr>activePromise = None, queuedPromise = None, queuedPromiseFactory = None,
                 invoked = []\<rparr>"

definition invoke_factory :: "nat \<Rightarrow> th_world \<Rightarrow> nat \<times> th_world" where
  "invoke_factory f w =
     (case new_promise w of
        (p, w1) \<Rightarrow> (p, w1\<lparr>prog := (prog w1)\<lparr>invoked := invoked (prog w1) @ [(f, p)]\<rparr>\<rparr>))"

text \<open>
  \<^verbatim>\<open>queue(promiseFactory)\<close>. The argument is \<open>None\<close> when \<^verbatim>\<open>onComplete\<close> passes a
  \<^verbatim>\<open>queuedPromiseFactory\<close> that is \<^verbatim>\<open>null\<close>; calling it throws a TypeError.
\<close>

definition queue :: "nat option \<Rightarrow> th_world \<Rightarrow> completion \<times> th_world" where
  "queue promiseFactory w =
     (case activePromise (prog w) of
        Some a \<Rightarrow>
          (let w1 = w\<lparr>prog := (prog w)\<lparr>queuedPromiseFactory := promiseFactory\<rparr>\<rparr>;
               w2 = (case queuedPromise (prog w1) of
                       Some _ \<Rightarrow> w1
                     | None \<Rightarrow>
                         (case new_promise w1 of
                            (q, w11) \<Rightarrow>
                              (case promise_then a (Closure OnComplete) (Closure OnComplete) w11 of
                                 (p1, w12) \<Rightarrow>
                                   (case promise_then p1 (ResolveFn q) Absent w12 of
                                      (p2, w13) \<Rightarrow>
                                        w13\<lparr>prog := (prog w13)\<lparr>queuedPromise := Some q\<rparr>\<rparr>))))
           in (case new_promise w2 of
                 (c, w3) \<Rightarrow>
                   (case queuedPromise (prog w3) of
                      None \<Rightarrow> (Throws (Err ''TypeError''), w3)
                    | Some q \<Rightarrow>
                        (case promise_then q (ResolveFn c) (RejectFn c) w3 of
                           (d, w4) \<Rightarrow> (Returns (PromiseRef c), w4)))))
      | None \<Rightarrow>
          (case promiseFactory of
             None \<Rightarrow> (Throws (Err ''TypeError''), w)
           | Some f \<Rightarrow>
               (case invoke_factory f w of
                  (a, w1) \<Rightarrow>
                    (let w2 = w1\<lparr>prog := (prog w1)\<lparr>activePromise := Some a\<rparr>\<rparr>
                     in (case new_promise w2 of
                           (c, w3) \<Rightarrow>
                             (case promise_then a (Closure (ActiveDone c)) (Closure (ActiveFailed c)) w3 of
                                (d, w4) \<Rightarrow> (Returns (PromiseRef c), w4)))))))"

fun th_exec :: "(th_closure, th_state) exec" where
  "th_exec OnComplete v w =
     (let w1 = w\<lparr>prog := (prog w)\<lparr>queuedPromise := None\<rparr>\<rparr>
      in (case queue (queuedPromiseFactory (prog w1)) w1 of
            (Throws e, w2) \<Rightarrow> (Throws e, w2)
          | (Returns result, w2) \<Rightarrow>
              (Returns result, w2\<lparr>prog := (prog w2)\<lparr>queuedPromiseFactory := None\<rparr>\<rparr>)))"
| "th_exec (ActiveDone c) result w =
     (Returns Undefined, resolve_promise c result (w\<lparr>prog := (prog w)\<lparr>activePromise := None\<rparr>\<rparr>))"
| "th_exec (ActiveFailed c) err w =
     (Returns Undefined, reject_promise c err (w\<lparr>prog := (prog w)\<lparr>activePromise := None\<rparr>\<rparr>))"

text \<open>
  A run of a Throttler: calls of \<^verbatim>\<open>queue\<close> from outside and settlements of the promises
  that the factories returned (the \<open>k\<close>-th invocation's promise), each followed by the
  microtask queue running empty. \<open>th_run\<close> collects what each call of \<^verbatim>\<open>queue\<close>
  returned.
\<close>

datatype th_event = Queue nat | SettleInvocation nat outcome

fun th_step :: "nat \<Rightarrow> th_event \<Rightarrow> th_world \<Rightarrow> (completion list \<times> th_world) option" where
  "th_step n (Queue f) w =
     (case queue (Some f) w of
        (c, w1) \<Rightarrow> map_option (\<lambda>w2. ([c], w2)) (drain th_exec n w1))"
| "th_step n (SettleInvocation k oc) w =
     (if k < length (invoked (prog w))
      then map_option (\<lambda>w2. ([], w2))
             (drain th_exec n (settle_promise (snd (invoked (prog w) ! k)) oc w))
      else None)"

fun th_run :: "nat \<Rightarrow> th_event list \<Rightarrow> th_world \<Rightarrow> (completion list \<times> th_world) option" where
  "th_run n [] w = Some ([], w)"
| "th_run n (ev # evs) w =
     (case th_step n ev w of
        None \<Rightarrow> None
      | Some (cs, w1) \<Rightarrow>
          (case th_run n evs w1 of None \<Rightarrow> None | Some (cs1, w2) \<Rightarrow> Some (cs @ cs1, w2)))"


section \<open>Delayer\<close>





















section \<open>first\<close>

text \<open>
  The variables that the closure \<^verbatim>\<open>loop\<close> of one call of \<^verbatim>\<open>first\<close> captures: the
  array of factories and \<^verbatim>\<open>index\<close>; and a log of the factory invocations (which
  factory, which promise it returned). A factory returns a pending promise that the
  environment settles later. \<^verbatim>\<open>shouldStop\<close> is a predicate on values and
  \<^verbatim>\<open>defaultValue\<close> a value; both are parameters.
\<close>

record fs_state =
  promiseFactories :: "nat list"
  index :: nat
  fs_invoked :: "(nat \<times> nat) list"

datatype fs_closure = LoopThen

type_synonym fs_world = "(fs_closure, fs_state) world"

definition fs_invoke :: "nat \<Rightarrow> fs_world \<Rightarrow> nat \<times> fs_world" where
  "fs_invoke f w =
     (case new_promise w of
        (p, w1) \<Rightarrow> (p, w1\<lparr>prog := (prog w1)\<lparr>fs_invoked := fs_invoked (prog w1) @ [(f, p)]\<rparr>\<rparr>))"

definition loop :: "jsval \<Rightarrow> fs_world \<Rightarrow> nat \<times> fs_world" where
  "loop defaultValue w =
     (if index (prog w) \<ge> length (promiseFactories (prog w))
      then promise_resolve defaultValue w
      else
        (let factory = promiseFactories (prog w) ! index (prog w);
             w1 = w\<lparr>prog := (prog w)\<lparr>index := Suc (index (prog w))\<rparr>\<rparr>
         in (case fs_invoke factory w1 of
               (r, w2) \<Rightarrow>
                 (case promise_resolve (PromiseRef r) w2 of
                    (promise, w3) \<Rightarrow> promise_then promise (Closure LoopThen) Absent w3))))"

fun fs_exec :: "(jsval \<Rightarrow> bool) \<Rightarrow> jsval \<Rightarrow> (fs_closure, fs_state) exec" where
  "fs_exec shouldStop defaultValue LoopThen result w =
     (if shouldStop result
      then (case promise_resolve result w of (p, w1) \<Rightarrow> (Returns (PromiseRef p), w1))
      else (case loop defaultValue w of (p, w1) \<Rightarrow> (Returns (PromiseRef p), w1)))"

text \<open>\<^verbatim>\<open>first(promiseFactories, shouldStop, defaultValue)\<close>, called in an empty world.\<close>

definition first :: "nat list \<Rightarrow> jsval \<Rightarrow> nat \<times> fs_world" where
  "first factories defaultValue =
     loop defaultValue (init_world \<lparr>promiseFactories = factories, index = 0, fs_invoked = []\<rparr>)"

text \<open>
  The environment lets the promise of the \<open>k\<close>-th invocation settle, and the microtask
  queue runs empty.
\<close>

definition fs_settle ::
  "(jsval \<Rightarrow> bool) \<Rightarrow> jsval \<Rightarrow> nat \<Rightarrow> nat \<Rightarrow> outcome \<Rightarrow> fs_world \<Rightarrow> fs_world option" where
  "fs_settle shouldStop defaultValue n k oc w =
     (if k < length (fs_invoked (prog w))
      then drain (fs_exec shouldStop defaultValue) n
             (settle_promise (snd (fs_invoked (prog w) ! k)) oc w)
      else None)"

text \<open>
  The invocations fulfil one after the other with the values \<open>rs\<close>: the \<open>k\<close>-th with the
  \<open>k\<close>-th value, starting at invocation \<open>k\<close>.
\<close>

fun fs_fulfil_all ::
  "(jsval \<Rightarrow> bool) \<Rightarrow> jsval \<Rightarrow> nat \<Rightarrow> nat \<Rightarrow> jsval list \<Rightarrow> fs_world \<Rightarrow> fs_world option" where
  "fs_fulfil_all shouldStop defaultValue n k [] w = Some w"
| "fs_fulfil_all shouldStop defaultValue n k (r # rs) w =
     (case fs_settle shouldStop defaultValue n k (Fulfilled r) w of
        None \<Rightarrow> None
      | Some w1 \<Rightarrow> fs_fulfil_all shouldStop defaultValue n (Suc k) rs w1)"



text \<open>The predicate \<^verbatim>\<open>x => x > 3\<close> of the spec's example.\<close>

fun greater_than_3 :: "jsval \<Rightarrow> bool" where
  "greater_than_3 (Num n) = (n > 3)"
| "greater_than_3 _ = False"


section \<open>Promises.settled\<close>











fun reasons :: "(nat \<times> outcome) list \<Rightarrow> jsval list" where
  "reasons [] = []"
| "reasons ((i, Fulfilled v) # sched) = reasons sched"
| "reasons ((i, Rejected e) # sched) = e # reasons sched"








section \<open>OutlineModel.create: the single-flight cache of outline requests\<close>

text \<open>
  A text model, as far as the cache looks at it: \<^verbatim>\<open>textModel.id\<close> and
  \<^verbatim>\<open>textModel.getVersionId()\<close>.
\<close>

record text_model =
  tm_id :: string
  tm_version :: nat

text \<open>
  An entry of \<^verbatim>\<open>_requests\<close>, the object \<^verbatim>\<open>data\<close>: it lives in a heap, because the
  closures of \<^verbatim>\<open>create\<close> keep the object they were created with, whatever the cache
  holds under the key later.
\<close>

record entry =
  promiseCnt :: int
  source :: nat
  promise :: nat
  model :: jsval

text \<open>
  The listeners: on a caller's token, the closure of \<^verbatim>\<open>create\<close> that releases the
  caller's share (it holds the key and \<^verbatim>\<open>data\<close>); on the token of an entry's source,
  the \<^verbatim>\<open>cancel\<close> of a child source created by \<^verbatim>\<open>new CancellationTokenSource(token)\<close>;
  on a child source, nothing that this code registers.
\<close>

datatype release_listener = Release string nat

text \<open>
  The closures handed to promises: by \<^verbatim>\<open>create\<close> (the update of the request durations,
  the two handlers on \<^verbatim>\<open>data.promise\<close>), by \<^verbatim>\<open>_create\<close> (the handlers on a
  provider's result, the closure that stores a group, the closure after
  \<^verbatim>\<open>Promise.all\<close>), and the functions that \<^verbatim>\<open>finally\<close> builds around
  \<^verbatim>\<open>() => listener.dispose()\<close>.
\<close>

datatype om_closure =
    UpdateDurations
  | CacheModel nat nat
  | CacheFail string nat
  | OnSymbols nat
  | OnProviderError nat
  | StoreGroup nat
  | AfterAll text_model nat nat nat
  | ThenFinally nat
  | CatchFinally nat
  | ReturnValue jsval
  | ThrowReason jsval

text \<open>
  The static state of \<^verbatim>\<open>OutlineModel\<close> and what it works with.

  Modelled from the spec: \<^verbatim>\<open>LRUCache\<close> (of \<^verbatim>\<open>vs/base/common/map\<close>, not among the
  sources) is the key-indexed map of entries of the spec's cache, with \<^verbatim>\<open>get\<close>,
  \<^verbatim>\<open>set\<close> and \<^verbatim>\<open>delete\<close>; the eviction of old entries beyond the capacity is not
  part of it. \<^verbatim>\<open>DocumentSymbolProviderRegistry\<close> (not among the sources) is the list of
  the providers registered for the text model, in order, and the listeners of
  \<^verbatim>\<open>onDidChange\<close>, each with the child source and the provider list its closure holds.

  \<open>creates\<close> counts the calls of \<^verbatim>\<open>_create\<close>; \<open>provider_calls\<close> logs the calls of
  \<^verbatim>\<open>provideDocumentSymbols\<close>: the provider, the child source whose token it was given,
  and the promise it returned (pending; the environment settles it).
\<close>

record om_state =
  requests :: "string \<Rightarrow> nat option"
  entries :: "nat \<Rightarrow> entry option"
  next_entry :: nat
  caller_tokens :: "nat \<Rightarrow> release_listener cts option"
  sources :: "nat \<Rightarrow> nat cts option"
  next_source :: nat
  children :: "nat \<Rightarrow> unit cts option"
  next_child :: nat
  providers :: "nat list"
  change_listeners :: "(nat \<times> nat \<times> nat list) list"
  next_listener :: nat
  key_data :: "nat \<Rightarrow> nat option"
  key_counter :: nat
  group_symbols :: "nat \<Rightarrow> jsval list option"
  model_groups :: "nat \<Rightarrow> nat list option"
  next_object :: nat
  creates :: nat
  provider_calls :: "(nat \<times> nat \<times> nat) list"

type_synonym om_world = "(om_closure, om_state) world"

definition om_init :: "nat list \<Rightarrow> nat \<Rightarrow> om_world" where
  "om_init ps ntokens =
     init_world
       \<lparr>requests = (\<lambda>_. None), entries = (\<lambda>_. None), next_entry = 0,
        caller_tokens = (\<lambda>t. if t < ntokens then Some cts_new else None),
        sources = (\<lambda>_. None), next_source = 0,
        children = (\<lambda>_. None), next_child = 0,
        providers = ps, change_listeners = [], next_listener = 0,
        key_data = (\<lambda>_. None), key_counter = 1,
        group_symbols = (\<lambda>_. None), model_groups = (\<lambda>_. None), next_object = 0,
        creates = 0, provider_calls = []\<rparr>"

subsection \<open>The keys\<close>

fun str_of_nat :: "nat \<Rightarrow> string" where
  "str_of_nat n =
     (if n < 10 then [char_of (48 + n)]
      else str_of_nat (n div 10) @ [char_of (48 + n mod 10)])"

text \<open>\<^verbatim>\<open>_hash\<close>: each provider gets a number the first time it is seen.\<close>

fun hash_providers :: "nat list \<Rightarrow> string \<Rightarrow> om_state \<Rightarrow> string \<times> om_state" where
  "hash_providers [] result s = (result, s)"
| "hash_providers (p # ps) result s =
     (case key_data s p of
        Some n \<Rightarrow> hash_providers ps (result @ str_of_nat n) s
      | None \<Rightarrow>
          hash_providers ps (result @ str_of_nat (key_counter s))
            (s\<lparr>key_data := (key_data s)(p \<mapsto> key_counter s),
               key_counter := Suc (key_counter s)\<rparr>))"

text \<open>\<^verbatim>\<open>_keys.for(textModel, version)\<close>\<close>

definition keys_for :: "text_model \<Rightarrow> bool \<Rightarrow> om_world \<Rightarrow> string \<times> om_world" where
  "keys_for tm version w =
     (case hash_providers (providers (prog w)) [] (prog w) of
        (h, s) \<Rightarrow>
          (tm_id tm @ ''/'' @ (if version then str_of_nat (tm_version tm) else []) @ ''/'' @ h,
           w\<lparr>prog := s\<rparr>))"

subsection \<open>Cancellation\<close>

text \<open>\<^verbatim>\<open>cancel()\<close> of a child source. This code registers no listener on its token.\<close>

definition child_cancel :: "nat \<Rightarrow> om_world \<Rightarrow> om_world" where
  "child_cancel c w =
     (case children (prog w) c of
        None \<Rightarrow> w
      | Some st \<Rightarrow> w\<lparr>prog := (prog w)\<lparr>children := (children (prog w))(c \<mapsto> fst (cts_cancel st))\<rparr>\<rparr>)"

text \<open>\<^verbatim>\<open>cancel()\<close> of an entry's source: its children are cancelled with it.\<close>

definition source_cancel :: "nat \<Rightarrow> om_world \<Rightarrow> om_world" where
  "source_cancel s w =
     (case sources (prog w) s of
        None \<Rightarrow> w
      | Some st \<Rightarrow>
          (case cts_cancel st of
             (st1, cs) \<Rightarrow>
               fold child_cancel cs
                 (w\<lparr>prog := (prog w)\<lparr>sources := (sources (prog w))(s \<mapsto> st1)\<rparr>\<rparr>)))"

text \<open>\<^verbatim>\<open>new CancellationTokenSource(parent)\<close>, the parent being the token of a source.\<close>

definition new_child :: "nat \<Rightarrow> om_world \<Rightarrow> nat \<times> om_world" where
  "new_child parent w =
     (let c = next_child (prog w);
          w1 = w\<lparr>prog := (prog w)\<lparr>children := (children (prog w))(c \<mapsto> cts_new),
                                  next_child := Suc c\<rparr>\<rparr>
      in (case sources (prog w1) parent of
            None \<Rightarrow> (c, w1)
          | Some st \<Rightarrow>
              (case cts_listen c st of
                 (st1, now) \<Rightarrow>
                   (let w2 = w1\<lparr>prog := (prog w1)\<lparr>sources := (sources (prog w1))(parent \<mapsto> st1)\<rparr>\<rparr>
                    in (c, if now then child_cancel c w2 else w2)))))"

definition child_requested :: "om_world \<Rightarrow> nat \<Rightarrow> bool" where
  "child_requested w c = (case children (prog w) c of None \<Rightarrow> False | Some st \<Rightarrow> requested st)"

definition source_requested :: "om_world \<Rightarrow> nat \<Rightarrow> bool" where
  "source_requested w s = (case sources (prog w) s of None \<Rightarrow> False | Some st \<Rightarrow> requested st)"

text \<open>
  The listener that \<^verbatim>\<open>create\<close> puts on the caller's token:
  \<^verbatim>\<open>if (--data.promiseCnt === 0) { data.source.cancel(); _requests.delete(key); }\<close>
\<close>

fun run_release :: "release_listener \<Rightarrow> om_world \<Rightarrow> om_world" where
  "run_release (Release key d) w =
     (case entries (prog w) d of
        None \<Rightarrow> w
      | Some e \<Rightarrow>
          (let w1 = w\<lparr>prog := (prog w)\<lparr>entries := (entries (prog w))(d \<mapsto> e\<lparr>promiseCnt := promiseCnt e - 1\<rparr>)\<rparr>\<rparr>
           in if promiseCnt e - 1 = 0
              then (let w2 = source_cancel (source e) w1
                    in w2\<lparr>prog := (prog w2)\<lparr>requests := (requests (prog w2))(key := None)\<rparr>\<rparr>)
              else w1))"

text \<open>The caller cancels the source of its token.\<close>

definition token_cancel :: "nat \<Rightarrow> om_world \<Rightarrow> om_world" where
  "token_cancel t w =
     (case caller_tokens (prog w) t of
        None \<Rightarrow> w
      | Some st \<Rightarrow>
          (case cts_cancel st of
             (st1, ls) \<Rightarrow>
               fold run_release ls
                 (w\<lparr>prog := (prog w)\<lparr>caller_tokens := (caller_tokens (prog w))(t \<mapsto> st1)\<rparr>\<rparr>)))"

definition token_listen :: "nat \<Rightarrow> release_listener \<Rightarrow> om_world \<Rightarrow> om_world" where
  "token_listen t l w =
     (case caller_tokens (prog w) t of
        None \<Rightarrow> w
      | Some st \<Rightarrow>
          (case cts_listen l st of
             (st1, now) \<Rightarrow>
               (let w1 = w\<lparr>prog := (prog w)\<lparr>caller_tokens := (caller_tokens (prog w))(t \<mapsto> st1)\<rparr>\<rparr>
                in if now then run_release l w1 else w1)))"

subsection \<open>_create\<close>

text \<open>
  A provider is called with the text model and the token of the child source; it returns a
  pending promise, which the environment settles with the symbols or with an error.
\<close>

definition invoke_provider :: "nat \<Rightarrow> nat \<Rightarrow> om_world \<Rightarrow> nat \<times> om_world" where
  "invoke_provider p c w =
     (case new_promise w of
        (u, w1) \<Rightarrow>
          (u, w1\<lparr>prog := (prog w1)\<lparr>provider_calls := provider_calls (prog w1) @ [(p, c, u)]\<rparr>\<rparr>))"

text \<open>
  The body of \<^verbatim>\<open>provider.map((provider, index) => ...)\<close>: a group object is created for
  each provider (an object number, with no symbols yet), the provider is called, and the
  two \<^verbatim>\<open>then\<close> are chained on its result. The tree of outline elements below a group is
  kept as the list of the symbols the provider gave.
\<close>

definition provider_body :: "nat \<Rightarrow> nat \<Rightarrow> nat \<Rightarrow> om_world \<Rightarrow> nat \<times> om_world" where
  "provider_body m c p w =
     (let g = next_object (prog w);
          w1 = w\<lparr>prog := (prog w)\<lparr>group_symbols := (group_symbols (prog w))(g \<mapsto> []),
                                  next_object := Suc g\<rparr>\<rparr>
      in (case invoke_provider p c w1 of
            (u, w2) \<Rightarrow>
              (case promise_resolve (PromiseRef u) w2 of
                 (t, w3) \<Rightarrow>
                   (case promise_then t (Closure (OnSymbols g)) (Closure (OnProviderError g)) w3 of
                      (d, w4) \<Rightarrow> promise_then d (Closure (StoreGroup m)) Absent w4))))"

fun map_providers :: "nat \<Rightarrow> nat \<Rightarrow> nat list \<Rightarrow> om_world \<Rightarrow> nat list \<times> om_world" where
  "map_providers m c [] w = ([], w)"
| "map_providers m c (p # ps) w =
     (case provider_body m c p w of
        (e, w1) \<Rightarrow> (case map_providers m c ps w1 of (es, w2) \<Rightarrow> (e # es, w2)))"

definition on_did_change :: "nat \<Rightarrow> nat list \<Rightarrow> om_world \<Rightarrow> nat \<times> om_world" where
  "on_did_change c snapshot w =
     (next_listener (prog w),
      w\<lparr>prog := (prog w)\<lparr>change_listeners :=
                             change_listeners (prog w) @ [(next_listener (prog w), c, snapshot)],
                           next_listener := Suc (next_listener (prog w))\<rparr>\<rparr>)"

definition dispose_listener :: "nat \<Rightarrow> om_world \<Rightarrow> om_world" where
  "dispose_listener l w =
     w\<lparr>prog := (prog w)\<lparr>change_listeners :=
                            filter (\<lambda>x. fst x \<noteq> l) (change_listeners (prog w))\<rparr>\<rparr>"

definition OutlineModel_create_internal :: "text_model \<Rightarrow> nat \<Rightarrow> om_world \<Rightarrow> nat \<times> om_world" where
  "OutlineModel_create_internal textModel token w =
     (let w0 = w\<lparr>prog := (prog w)\<lparr>creates := Suc (creates (prog w))\<rparr>\<rparr>
      in (case new_child token w0 of
            (cts, w1) \<Rightarrow>
              (let result = next_object (prog w1);
                   w2 = w1\<lparr>prog := (prog w1)\<lparr>model_groups := (model_groups (prog w1))(result \<mapsto> []),
                                             next_object := Suc result\<rparr>\<rparr>;
                   provider = providers (prog w2)
               in (case map_providers result cts provider w2 of
                     (ps, w3) \<Rightarrow>
                       (case on_did_change cts provider w3 of
                          (listener, w4) \<Rightarrow>
                            (case promise_all ps w4 of
                               (a, w5) \<Rightarrow>
                                 (case promise_then a (Closure (AfterAll textModel cts token result))
                                         Absent w5 of
                                    (t, w6) \<Rightarrow>
                                      promise_then t (Closure (ThenFinally listener))
                                        (Closure (CatchFinally listener)) w6)))))))"

text \<open>
  What \<^verbatim>\<open>for (const info of result || [])\<close> iterates over: the elements of an array, the
  characters of a string, nothing for a falsy value; any other value is not iterable, the
  loop throws a TypeError.
\<close>

fun symbols_of :: "jsval \<Rightarrow> jsval list option" where
  "symbols_of (Arr xs) = Some xs"
| "symbols_of (Str s) = Some (map (\<lambda>c. Str [c]) s)"
| "symbols_of v = (if truthy v then None else Some [])"

subsection \<open>create\<close>

definition OutlineModel_create :: "text_model \<Rightarrow> nat \<Rightarrow> om_world \<Rightarrow> nat \<times> om_world" where
  "OutlineModel_create textModel token w =
     (case keys_for textModel True w of
        (key, wk) \<Rightarrow>
          (case (case requests (prog wk) key of
                   Some d \<Rightarrow> (d, wk)
                 | None \<Rightarrow>
                     (let s = next_source (prog wk);
                          w1 = wk\<lparr>prog := (prog wk)\<lparr>sources := (sources (prog wk))(s \<mapsto> cts_new),
                                                    next_source := Suc s\<rparr>\<rparr>
                      in (case OutlineModel_create_internal textModel s w1 of
                            (f, w2) \<Rightarrow>
                              (let d = next_entry (prog w2);
                                   w3 = w2\<lparr>prog := (prog w2)
                                           \<lparr>entries := (entries (prog w2))
                                              (d \<mapsto> \<lparr>promiseCnt = 0, source = s, promise = f,
                                                      model = Undefined\<rparr>),
                                            next_entry := Suc d,
                                            requests := (requests (prog w2))(key \<mapsto> d)\<rparr>\<rparr>
                               in (d, snd (promise_then f (Closure UpdateDurations) Absent w3)))))) of
             (d, wd) \<Rightarrow>
               (case entries (prog wd) d of
                  None \<Rightarrow> (0, wd)
                | Some e \<Rightarrow>
                    if truthy (model e) then promise_resolve (model e) wd
                    else
                      (let w4 = wd\<lparr>prog := (prog wd)\<lparr>entries := (entries (prog wd))
                                                  (d \<mapsto> e\<lparr>promiseCnt := promiseCnt e + 1\<rparr>)\<rparr>\<rparr>;
                           w5 = token_listen token (Release key d) w4
                       in (case new_promise w5 of
                             (r, w6) \<Rightarrow>
                               (r, snd (promise_then (promise e) (Closure (CacheModel d r))
                                          (Closure (CacheFail key r)) w6)))))))"

fun om_exec :: "(om_closure, om_state) exec" where
  "om_exec UpdateDurations v w = (Returns Undefined, w)"
| "om_exec (CacheModel d r) m w =
     (Returns Undefined,
      resolve_promise r m
        (case entries (prog w) d of
           None \<Rightarrow> w
         | Some e \<Rightarrow> w\<lparr>prog := (prog w)\<lparr>entries := (entries (prog w))(d \<mapsto> e\<lparr>model := m\<rparr>)\<rparr>\<rparr>))"
| "om_exec (CacheFail key r) err w =
     (Returns Undefined,
      reject_promise r err (w\<lparr>prog := (prog w)\<lparr>requests := (requests (prog w))(key := None)\<rparr>\<rparr>))"
| "om_exec (OnSymbols g) result w =
     (case symbols_of result of
        None \<Rightarrow> (Throws (Err ''TypeError''), w)
      | Some xs \<Rightarrow>
          (Returns (Obj g),
           w\<lparr>prog := (prog w)\<lparr>group_symbols := (group_symbols (prog w))
                                  (g \<mapsto> (case group_symbols (prog w) g of None \<Rightarrow> [] | Some ys \<Rightarrow> ys) @ xs)\<rparr>\<rparr>))"
| "om_exec (OnProviderError g) err w = (Returns (Obj g), w)"
| "om_exec (StoreGroup m) grp w =
     (Returns Undefined,
      (case grp of
         Obj g \<Rightarrow>
           (if (case group_symbols (prog w) g of None \<Rightarrow> [] | Some ys \<Rightarrow> ys) \<noteq> []
            then w\<lparr>prog := (prog w)\<lparr>model_groups := (model_groups (prog w))
                                      (m \<mapsto> (case model_groups (prog w) m of None \<Rightarrow> [] | Some gs \<Rightarrow> gs) @ [g])\<rparr>\<rparr>
            else w)
       | _ \<Rightarrow> w))"
| "om_exec (AfterAll textModel cts token result) v w =
     (if child_requested w cts \<and> \<not> source_requested w token
      then (case OutlineModel_create_internal textModel token w of
              (f, w1) \<Rightarrow> (Returns (PromiseRef f), w1))
      else (Returns (Obj result), w))"
| "om_exec (ThenFinally l) v w =
     (case promise_resolve Undefined (dispose_listener l w) of
        (p, w1) \<Rightarrow>
          (case promise_then p (Closure (ReturnValue v)) Absent w1 of
             (q, w2) \<Rightarrow> (Returns (PromiseRef q), w2)))"
| "om_exec (CatchFinally l) e w =
     (case promise_resolve Undefined (dispose_listener l w) of
        (p, w1) \<Rightarrow>
          (case promise_then p (Closure (ThrowReason e)) Absent w1 of
             (q, w2) \<Rightarrow> (Returns (PromiseRef q), w2)))"
| "om_exec (ReturnValue v) x w = (Returns v, w)"
| "om_exec (ThrowReason e) x w = (Throws e, w)"

subsection \<open>The environment\<close>

text \<open>
  The registry changes: the new provider list is in place, and each listener of
  \<^verbatim>\<open>onDidChange\<close> compares it with the list it holds and cancels its child source when
  they differ.
\<close>

definition set_providers :: "nat list \<Rightarrow> om_world \<Rightarrow> om_world" where
  "set_providers ps w =
     fold (\<lambda>(l, c, snapshot) w1. if ps \<noteq> snapshot then child_cancel c w1 else w1)
       (change_listeners (prog w))
       (w\<lparr>prog := (prog w)\<lparr>providers := ps\<rparr>\<rparr>)"

datatype om_event =
    Create text_model nat
  | CancelToken nat
  | ProviderSettles nat outcome
  | SetProviders "nat list"

fun om_step :: "nat \<Rightarrow> om_event \<Rightarrow> om_world \<Rightarrow> (nat list \<times> om_world) option" where
  "om_step n (Create tm t) w =
     (case OutlineModel_create tm t w of
        (r, w1) \<Rightarrow> map_option (\<lambda>w2. ([r], w2)) (drain om_exec n w1))"
| "om_step n (CancelToken t) w = map_option (\<lambda>w2. ([], w2)) (drain om_exec n (token_cancel t w))"
| "om_step n (ProviderSettles k oc) w =
     (if k < length (provider_calls (prog w))
      then map_option (\<lambda>w2. ([], w2))
             (drain om_exec n (settle_promise (snd (snd (provider_calls (prog w) ! k))) oc w))
      else None)"
| "om_step n (SetProviders ps) w = map_option (\<lambda>w2. ([], w2)) (drain om_exec n (set_providers ps w))"

fun om_run :: "nat \<Rightarrow> om_event list \<Rightarrow> om_world \<Rightarrow> (nat list \<times> om_world) option" where
  "om_run n [] w = Some ([], w)"
| "om_run n (ev # evs) w =
     (case om_step n ev w of
        None \<Rightarrow> None
      | Some (rs, w1) \<Rightarrow>
          (case om_run n evs w1 of None \<Rightarrow> None | Some (rs1, w2) \<Rightarrow> Some (rs @ rs1, w2)))"

subsection \<open>Notions for the proofs\<close>

text \<open>
  The string that \<^verbatim>\<open>_hash\<close> returns once every provider has its number, and the key
  that \<^verbatim>\<open>_keys.for(textModel, true)\<close> returns then.
\<close>

definition hash_string :: "om_state \<Rightarrow> nat list \<Rightarrow> string" where
  "hash_string s ps =
     concat (map (\<lambda>p. case key_data s p of None \<Rightarrow> [] | Some n \<Rightarrow> str_of_nat n) ps)"

definition om_key :: "text_model \<Rightarrow> om_state \<Rightarrow> string" where
  "om_key tm s =
     tm_id tm @ ''/'' @ str_of_nat (tm_version tm) @ ''/'' @ hash_string s (providers s)"

definition keys_known :: "om_state \<Rightarrow> bool" where
  "keys_known s = list_all (\<lambda>p. key_data s p \<noteq> None) (providers s)"


section \<open>Facts about the microtask queue\<close>

lemmas rt_defs = new_promise_def settle_promise_def resolve_with_def lock_promise_def
  is_locked_def resolve_promise_def reject_promise_def perform_then_def promise_then_def
  promise_resolve_def reaction_job_def fresh_promise_def state_of_def init_world_def

lemma drain_more: "drain exec n w = Some w' \<Longrightarrow> drain exec (n + k) w = Some w'"
proof (induction n arbitrary: w)
  case 0
  then show ?case by (cases "jobs w") simp_all
next
  case (Suc n)
  then show ?case by (cases "jobs w") simp_all
qed

lemma drain_quiet: "drain exec n w = Some w' \<Longrightarrow> jobs w' = []"
proof (induction n arbitrary: w)
  case 0
  then show ?case by (cases "jobs w") simp_all
next
  case (Suc n)
  then show ?case by (cases "jobs w") simp_all
qed












section \<open>Lazy and IdleValue: the executor runs once, its completion is replayed\<close>

lemma iv_inv_new: "iv_inv ex IdleValue_new"
  by (simp add: iv_inv_def IdleValue_new_def)

lemma iv_inv_fire: "iv_inv ex s \<Longrightarrow> iv_inv ex (iv_idle_fire ex s)"
  by (auto simp: iv_inv_def iv_idle_fire_def iv_executor_def split: completion.splits if_splits)

lemma iv_inv_dispose: "iv_inv ex s \<Longrightarrow> iv_inv ex (IdleValue_dispose s)"
  by (auto simp: iv_inv_def IdleValue_dispose_def iv_handle_dispose_def
      split: completion.splits if_splits)

lemma iv_inv_value:
  "iv_inv ex s \<Longrightarrow> IdleValue_value ex s = (c, s') \<Longrightarrow>
   iv_inv ex s' \<and> iv_didRun s' \<and> c = replayed (ex 0)"
  by (auto simp: iv_inv_def IdleValue_value_def iv_handle_dispose_def iv_executor_def Let_def
      split: completion.splits if_splits)

lemma iv_run_inv:
  "iv_inv ex s \<Longrightarrow> iv_run ex evs s = (cs, s') \<Longrightarrow>
   iv_inv ex s' \<and> (\<forall>c\<in>set cs. c = replayed (ex 0)) \<and>
   (Access \<in> set evs \<or> iv_didRun s \<longrightarrow> iv_didRun s')"
proof (induction evs arbitrary: s cs s')
  case Nil
  then show ?case by simp
next
  case (Cons ev evs)
  show ?case
  proof (cases ev)
    case Access
    obtain c s1 where v: "IdleValue_value ex s = (c, s1)"
      by (cases "IdleValue_value ex s")
    obtain cs1 s2 where r: "iv_run ex evs s1 = (cs1, s2)"
      by (cases "iv_run ex evs s1")
    from iv_inv_value[OF Cons.prems(1) v]
    have i1: "iv_inv ex s1" "iv_didRun s1" "c = replayed (ex 0)" by auto
    from Cons.IH[OF i1(1) r] i1
    have "iv_inv ex s2 \<and> (\<forall>c\<in>set cs1. c = replayed (ex 0)) \<and> iv_didRun s2" by auto
    with Cons.prems(2) Access v r i1 show ?thesis by auto
  next
    case IdleFire
    have d: "iv_didRun s \<Longrightarrow> iv_didRun (iv_idle_fire ex s)"
      by (auto simp: iv_idle_fire_def iv_executor_def split: completion.splits)
    from Cons.IH[OF iv_inv_fire[OF Cons.prems(1)], of cs s'] Cons.prems(2) IdleFire d
    show ?thesis by auto
  next
    case Dispose
    have d: "iv_didRun s \<Longrightarrow> iv_didRun (IdleValue_dispose s)"
      by (auto simp: IdleValue_dispose_def iv_handle_dispose_def)
    from Cons.IH[OF iv_inv_dispose[OF Cons.prems(1)], of cs s'] Cons.prems(2) Dispose d
    show ?thesis by auto
  qed
qed

text \<open>
  In every history of an IdleValue with at least one access (the idle callback and
  \<^verbatim>\<open>dispose()\<close> placed anywhere), the executor is called exactly once, and every access
  observes the same thing: the value the executor returned, or the error it threw when
  that error is truthy.
\<close>

lemma idle_value_runs_once:
  assumes "iv_run ex evs IdleValue_new = (cs, s')" and "Access \<in> set evs"
  shows "iv_calls s' = 1 \<and> (\<forall>c\<in>set cs. c = replayed (ex 0))"
proof -
  from iv_run_inv[OF iv_inv_new assms(1)] assms(2)
  have "iv_inv ex s'" "iv_didRun s'" "\<forall>c\<in>set cs. c = replayed (ex 0)" by auto
  then show ?thesis by (auto simp: iv_inv_def)
qed

lemma lazy_first_access:
  assumes "Lazy_getValue ex Lazy_new = (c, l1)"
  shows "lz_didRun l1 \<and> lz_calls l1 = 1 \<and> c = replayed (ex 0) \<and>
      (if truthy (lz_error l1) then Throws (lz_error l1) else Returns (lz_value l1)) = replayed (ex 0)"
proof (cases "ex 0")
  case (Returns v)
  have "Lazy_getValue ex Lazy_new =
      (Returns v, \<lparr>lz_didRun = True, lz_value = v, lz_error = Undefined, lz_calls = 1\<rparr>)"
    by (simp add: Lazy_getValue_def Lazy_new_def lazy_run_def Let_def Returns)
  with assms have "c = Returns v"
    and "l1 = \<lparr>lz_didRun = True, lz_value = v, lz_error = Undefined, lz_calls = 1\<rparr>"
    by simp_all
  then show ?thesis by (simp add: Returns)
next
  case (Throws e)
  have "Lazy_getValue ex Lazy_new =
      (if truthy e then Throws e else Returns Undefined,
       \<lparr>lz_didRun = True, lz_value = Undefined, lz_error = e, lz_calls = 1\<rparr>)"
    by (simp add: Lazy_getValue_def Lazy_new_def lazy_run_def Let_def Throws)
  with assms have "c = (if truthy e then Throws e else Returns Undefined)"
    and "l1 = \<lparr>lz_didRun = True, lz_value = Undefined, lz_error = e, lz_calls = 1\<rparr>"
    by simp_all
  then show ?thesis by (simp add: Throws)
qed

lemma lazy_accesses_once:
  "lazy_run_accesses ex (Suc n) Lazy_new = (cs, l') \<Longrightarrow>
   lz_calls l' = 1 \<and> cs = replicate (Suc n) (replayed (ex 0))"
proof -
  have step: "\<And>l c l1. lz_didRun l \<Longrightarrow> Lazy_getValue ex l = (c, l1) \<Longrightarrow>
      l1 = l \<and> c = (if truthy (lz_error l) then Throws (lz_error l) else Returns (lz_value l))"
    by (auto simp: Lazy_getValue_def Let_def split: if_splits)
  have rest: "\<And>l cs l'. lz_didRun l \<Longrightarrow> lazy_run_accesses ex n l = (cs, l') \<Longrightarrow>
      l' = l \<and> cs = replicate n (if truthy (lz_error l) then Throws (lz_error l)
                                  else Returns (lz_value l))"
  proof (induction n)
    case 0
    then show ?case by simp
  next
    case (Suc n)
    obtain c l1 where v: "Lazy_getValue ex l = (c, l1)" by (cases "Lazy_getValue ex l")
    obtain cs1 l2 where r: "lazy_run_accesses ex n l1 = (cs1, l2)"
      by (cases "lazy_run_accesses ex n l1")
    from step[OF Suc.prems(1) v] have e: "l1 = l"
      "c = (if truthy (lz_error l) then Throws (lz_error l) else Returns (lz_value l))" by auto
    from Suc.IH[OF Suc.prems(1), of cs1 l2] r e
    have "l2 = l \<and> cs1 = replicate n (if truthy (lz_error l) then Throws (lz_error l)
                                  else Returns (lz_value l))" by simp
    with Suc.prems(2) v r e show ?case by auto
  qed
  assume a: "lazy_run_accesses ex (Suc n) Lazy_new = (cs, l')"
  obtain c l1 where v: "Lazy_getValue ex Lazy_new = (c, l1)"
    by (cases "Lazy_getValue ex Lazy_new")
  obtain cs1 l2 where r: "lazy_run_accesses ex n l1 = (cs1, l2)"
    by (cases "lazy_run_accesses ex n l1")
  from lazy_first_access[OF v]
  have f: "lz_didRun l1 \<and> lz_calls l1 = 1 \<and> c = replayed (ex 0) \<and>
      (if truthy (lz_error l1) then Throws (lz_error l1) else Returns (lz_value l1)) = replayed (ex 0)" .
  from rest[of l1 cs1 l2] r f have "l2 = l1 \<and> cs1 = replicate n (replayed (ex 0))" by simp
  with a v r f show ?thesis by auto
qed

text \<open>
  C7. The claim: across any sequence of accesses the factory runs once, and a cached
  failure is re-thrown as the identical error on every access. The getters test the cached
  error with \<^verbatim>\<open>if (this._error)\<close>: an executor that throws a falsy value (here the
  number 0) leaves a cached failure that no access re-throws; both accesses of an IdleValue
  and both accesses of a Lazy return \<^verbatim>\<open>undefined\<close> instead, although the executor ran
  once and threw.
\<close>

theorem falsy_failure_not_rethrown:
  "iv_run (\<lambda>_. Throws (Num 0)) [Access, Access] IdleValue_new =
     ([Returns Undefined, Returns Undefined],
      \<lparr>iv_didRun = True, iv_value = Undefined, iv_error = Num 0, iv_calls = 1,
       iv_scheduled = False, iv_disposed = True\<rparr>) \<and>
   lazy_run_accesses (\<lambda>_. Throws (Num 0)) 2 Lazy_new =
     ([Returns Undefined, Returns Undefined],
      \<lparr>lz_didRun = True, lz_value = Undefined, lz_error = Num 0, lz_calls = 1\<rparr>)"
  by (simp add: IdleValue_new_def IdleValue_value_def iv_handle_dispose_def iv_executor_def
      Lazy_new_def Lazy_getValue_def lazy_run_def numeral_2_eq_2)


section \<open>createCancelablePromise: cancellation before settlement wins\<close>

lemmas cp_defs = cp_init_def cp_set_source_def cp_source_cancel_def cp_source_listen_def
  cp_source_dispose_def createCancelablePromise_def cancelable_cancel_def cts_new_def
  cts_cancel_def cts_listen_def cts_dispose_def cp_turn_def

text \<open>
  The other order, for comparison: when the underlying promise settles first, the exposed
  promise takes its outcome, the source is disposed once, and a later \<^verbatim>\<open>cancel()\<close>
  changes neither.
\<close>

lemma cancelable_natural_settlement:
  assumes "jobs w = []" and "proper oc"
  shows "case createCancelablePromise w of
           (c, w1) \<Rightarrow>
             (case cp_turn (Suc n) (settle_promise (cb_underlying c) oc w1) of
                None \<Rightarrow> False
              | Some w2 \<Rightarrow>
                  state_of w2 (cb_promise c) = Some (Settled oc) \<and>
                  map_option dispose_calls (cp_sources (prog w2) (cb_source c)) = Some 1 \<and>
                  (case cp_turn n (cancelable_cancel c w2) of
                     None \<Rightarrow> False
                   | Some w3 \<Rightarrow>
                       state_of w3 (cb_promise c) = Some (Settled oc) \<and>
                       map_option dispose_calls (cp_sources (prog w3) (cb_source c)) = Some 1))"
proof (cases oc)
  case (Fulfilled v)
  with assms show ?thesis
    by (cases v) (simp_all add: rt_defs cp_defs Let_def)
next
  case (Rejected e)
  with assms show ?thesis
    by (simp add: rt_defs cp_defs Let_def)
qed

text \<open>
  C6. In any world at rest, create a cancelable promise (the callback is called once and
  its promise is pending), call \<^verbatim>\<open>cancel()\<close>, and let the microtask queue run: the
  exposed promise is rejected with the Canceled error, and the source has not been
  disposed. Then let the underlying promise settle with any outcome \<open>oc\<close>, a value or the
  factory's own failure: the exposed promise is still rejected with the Canceled error, and
  the source has been disposed exactly once.
\<close>

theorem cancel_before_settlement_wins:
  assumes "jobs w = []"
  shows "case createCancelablePromise w of
           (c, w1) \<Rightarrow>
             cp_callback_calls (prog w1) = Suc (cp_callback_calls (prog w)) \<and>
             state_of w1 (cb_underlying c) = Some Pending \<and>
             state_of w1 (cb_promise c) = Some Pending \<and>
             (case cp_turn n (cancelable_cancel c w1) of
                None \<Rightarrow> False
              | Some w2 \<Rightarrow>
                  state_of w2 (cb_promise c) = Some (Settled (Rejected canceled)) \<and>
                  map_option requested (cp_sources (prog w2) (cb_source c)) = Some True \<and>
                  map_option dispose_calls (cp_sources (prog w2) (cb_source c)) = Some 0 \<and>
                  (case cp_turn (Suc n) (settle_promise (cb_underlying c) oc w2) of
                     None \<Rightarrow> False
                   | Some w3 \<Rightarrow>
                       state_of w3 (cb_underlying c) = Some (Settled oc) \<and>
                       state_of w3 (cb_promise c) = Some (Settled (Rejected canceled)) \<and>
                       map_option dispose_calls (cp_sources (prog w3) (cb_source c)) = Some 1))"
  using assms by (cases oc) (simp_all add: rt_defs cp_defs Let_def)

theorem cancel_before_settlement_wins_witness:
  "jobs cp_init = [] \<and>
   (case createCancelablePromise cp_init of
      (c, w1) \<Rightarrow>
        cp_callback_calls (prog w1) = Suc (cp_callback_calls (prog cp_init)) \<and>
        state_of w1 (cb_underlying c) = Some Pending \<and>
        state_of w1 (cb_promise c) = Some Pending \<and>
        (case cp_turn 0 (cancelable_cancel c w1) of
           None \<Rightarrow> False
         | Some w2 \<Rightarrow>
             state_of w2 (cb_promise c) = Some (Settled (Rejected canceled)) \<and>
             map_option requested (cp_sources (prog w2) (cb_source c)) = Some True \<and>
             map_option dispose_calls (cp_sources (prog w2) (cb_source c)) = Some 0 \<and>
             (case cp_turn (Suc 0) (settle_promise (cb_underlying c) (Rejected (Err ''failure'')) w2) of
                None \<Rightarrow> False
              | Some w3 \<Rightarrow>
                  state_of w3 (cb_underlying c) = Some (Settled (Rejected (Err ''failure''))) \<and>
                  state_of w3 (cb_promise c) = Some (Settled (Rejected canceled)) \<and>
                  map_option dispose_calls (cp_sources (prog w3) (cb_source c)) = Some 1)))"
proof -
  have h: "jobs cp_init = []"
    by (simp add: cp_init_def init_world_def)
  from cancel_before_settlement_wins[OF h, where n = 0 and oc = "Rejected (Err ''failure'')"] h
  show ?thesis by (rule_tac conjI)
qed


section \<open>Throttler: coalescing, and the lost rejection\<close>

lemmas th_defs = Throttler_new_def queue_def invoke_factory_def

text \<open>
  Two calls of \<^verbatim>\<open>queue\<close> while the first task is active, then the active task fulfils
  and the coalesced run fulfils with 2: the factories 10 and 12 were invoked, not 11, and
  both queued callers' promises (6 and 8) are fulfilled with 2.
\<close>

lemma throttler_coalesced_fulfilment:
  "(case th_run 20 [Queue 10, Queue 11, Queue 12, SettleInvocation 0 (Fulfilled (Num 1)),
                    SettleInvocation 1 (Fulfilled (Num 2))] Throttler_new of
      None \<Rightarrow> False
    | Some (cs, w) \<Rightarrow>
        cs = [Returns (PromiseRef 1), Returns (PromiseRef 6), Returns (PromiseRef 8)] \<and>
        invoked (prog w) = [(10, 0), (12, 10)] \<and>
        state_of w 1 = Some (Settled (Fulfilled (Num 1))) \<and>
        state_of w 6 = Some (Settled (Fulfilled (Num 2))) \<and>
        state_of w 8 = Some (Settled (Fulfilled (Num 2))))"
  by (simp add: rt_defs th_defs Let_def)

text \<open>
  C1. The claim: all queued callers' futures settle with the result of the coalesced run.
  The same run as above, but the coalesced run (factory 12, promise 10) is rejected with
  the error E. The factories 10 and 12 were invoked and the coalesced run has settled, yet
  the queued callers' promises 6 and 8 are still pending when everything is at rest: the
  queued promise 3 is built with \<^verbatim>\<open>.then(onComplete, onComplete).then(resolve)\<close>, which
  has no rejection handler, so it is never settled; no job is left, and the only reactions
  left in the store are those of the two callers, waiting on promise 3.
\<close>

theorem throttler_coalesced_rejection_lost:
  "(case th_run 20 [Queue 10, Queue 11, Queue 12, SettleInvocation 0 (Fulfilled (Num 1)),
                    SettleInvocation 1 (Rejected (Err ''E''))] Throttler_new of
      None \<Rightarrow> False
    | Some (cs, w) \<Rightarrow>
        cs = [Returns (PromiseRef 1), Returns (PromiseRef 6), Returns (PromiseRef 8)] \<and>
        invoked (prog w) = [(10, 0), (12, 10)] \<and>
        state_of w 10 = Some (Settled (Rejected (Err ''E''))) \<and>
        state_of w 6 = Some Pending \<and>
        state_of w 8 = Some Pending \<and>
        state_of w 3 = Some Pending \<and>
        jobs w = [] \<and>
        activePromise (prog w) = None \<and>
        queuedPromise (prog w) = None \<and>
        map (\<lambda>p. map_option reactions (promises w p)) [0..<nextp w] =
          [Some [], Some [], Some [],
           Some [(ResolveFn 6, RejectFn 6, Some 7), (ResolveFn 8, RejectFn 8, Some 9)],
           Some [], Some [], Some [], Some [], Some [], Some [], Some [], Some [],
           Some [], Some []])"
  by code_simp


section \<open>Delayer: a burst of triggers runs the last task once\<close>















section \<open>first: the factories run one after the other, up to the first match\<close>









text \<open>
  The spec's example, evaluated: the factories return 0, 5 and 9 and the predicate is
  \<^verbatim>\<open>x => x > 3\<close>; the returned promise (promise 1) is fulfilled with 5 and the third
  factory is never invoked.
\<close>

lemma first_example:
  "(case fs_fulfil_all greater_than_3 Null 6 0 [Num 0, Num 5] (snd (first [10, 11, 12] Null)) of
      None \<Rightarrow> False
    | Some w \<Rightarrow>
        fst (first [10, 11, 12] Null) = 1 \<and>
        state_of w 1 = Some (Settled (Fulfilled (Num 5))) \<and>
        map fst (fs_invoked (prog w)) = [10, 11] \<and> jobs w = [])"
  by (simp add: first_def loop_def fs_invoke_def fs_settle_def rt_defs Let_def)


section \<open>Promises.settled: every input is awaited, the first error is by completion order\<close>



















lemma reasons_mem: "e \<in> set (reasons sched) \<longleftrightarrow> (\<exists>i. (i, Rejected e) \<in> set sched)"
  by (induction sched rule: reasons.induct) auto








section \<open>OutlineModel: what a call of _create changes\<close>

lemma map_providers_frame:
  "map_providers m c ps w = (es, w') \<Longrightarrow>
     jobs w' = jobs w \<and> alls w' = alls w \<and> nextp w \<le> nextp w' \<and>
     (\<forall>q<nextp w. promises w' q = promises w q) \<and>
     (\<forall>e\<in>set es. nextp w \<le> e \<and> e < nextp w' \<and> promises w' e = Some fresh_promise) \<and>
     distinct es \<and> length es = length ps \<and>
     prog w' = (prog w)\<lparr>group_symbols := group_symbols (prog w'),
                         next_object := next_object (prog w'),
                         provider_calls := provider_calls (prog w')\<rparr>"
proof (induction ps arbitrary: w es w')
  case Nil
  then show ?case by simp
next
  case (Cons p ps)
  let ?u = "nextp w"
  obtain e0 w5 where body: "provider_body m c p w = (e0, w5)"
    by (cases "provider_body m c p w")
  then have e0: "e0 = Suc (Suc ?u)" and n5: "nextp w5 = Suc (Suc (Suc ?u))"
    and j5: "jobs w5 = jobs w" and a5: "alls w5 = alls w"
    and p5: "\<forall>q<?u. promises w5 q = promises w q"
    and f5: "promises w5 (Suc (Suc ?u)) = Some fresh_promise"
    and g5: "prog w5 = (prog w)\<lparr>group_symbols := group_symbols (prog w5),
                         next_object := next_object (prog w5),
                         provider_calls := provider_calls (prog w5)\<rparr>"
    by (auto simp: provider_body_def Let_def invoke_provider_def new_promise_def promise_resolve_def
        promise_then_def perform_then_def fresh_promise_def)
  obtain es' w6 where rec: "map_providers m c ps w5 = (es', w6)"
    by (cases "map_providers m c ps w5")
  have step: "map_providers m c (p # ps) w = (Suc (Suc ?u) # es', w6)"
    using rec body e0 by simp
  with Cons.prems have es: "es = Suc (Suc ?u) # es'" and w': "w' = w6" by simp_all
  from Cons.IH[OF rec] have ih:
     "jobs w6 = jobs w5" "alls w6 = alls w5" "nextp w5 \<le> nextp w6"
     "\<forall>q<nextp w5. promises w6 q = promises w5 q"
     "\<forall>e\<in>set es'. nextp w5 \<le> e \<and> e < nextp w6 \<and> promises w6 e = Some fresh_promise"
     "distinct es'" "length es' = length ps"
     "prog w6 = (prog w5)\<lparr>group_symbols := group_symbols (prog w6),
                         next_object := next_object (prog w6),
                         provider_calls := provider_calls (prog w6)\<rparr>"
    by blast+
  have "\<forall>q<nextp w. promises w6 q = promises w q"
    using ih(4) p5 n5 by auto
  moreover have "promises w6 (Suc (Suc ?u)) = Some fresh_promise"
    using ih(4) f5 n5 by simp
  moreover have "Suc (Suc ?u) \<notin> set es'" using ih(5) n5 by auto
  moreover have "prog w6 = (prog w)\<lparr>group_symbols := group_symbols (prog w6),
                         next_object := next_object (prog w6),
                         provider_calls := provider_calls (prog w6)\<rparr>"
    by (subst ih(8), subst g5) simp
  ultimately show ?case
    using ih n5 j5 a5 unfolding es w' by auto
qed

lemma all_loop_frame:
  assumes "alls w a = Some (vals, remaining)"
    and "\<forall>e\<in>set es. e < nextp w \<and> promises w e = Some fresh_promise" and "distinct es"
  shows "jobs (all_loop a i es w) = jobs w \<and> prog (all_loop a i es w) = prog w \<and>
         alls (all_loop a i es w) a = Some (vals @ replicate (length es) Undefined, remaining + length es) \<and>
         nextp w \<le> nextp (all_loop a i es w) \<and>
         (\<forall>q<nextp w. q \<notin> set es \<longrightarrow> promises (all_loop a i es w) q = promises w q) \<and>
         (\<forall>q. nextp w \<le> q \<and> q < nextp (all_loop a i es w) \<longrightarrow>
              promises (all_loop a i es w) q = Some fresh_promise)"
  using assms
proof (induction es arbitrary: w i vals remaining)
  case Nil
  then show ?case by auto
next
  case (Cons e es)
  let ?u = "nextp w"
  define w1 where "w1 = snd (promise_then e (AllElementFn a i) (RejectFn a)
               (w\<lparr>alls := (alls w)(a \<mapsto> (vals @ [Undefined], Suc remaining))\<rparr>))"
  from Cons.prems have e: "e < ?u" "promises w e = Some fresh_promise" "e \<notin> set es" by auto
  have step: "all_loop a i (e # es) w = all_loop a (Suc i) es w1"
    using Cons.prems(1) by (simp add: w1_def)
  have w1: "jobs w1 = jobs w" "prog w1 = prog w" "nextp w1 = Suc ?u"
    "alls w1 a = Some (vals @ [Undefined], Suc remaining)"
    "promises w1 ?u = Some fresh_promise"
    "\<forall>q. q \<noteq> e \<and> q \<noteq> ?u \<longrightarrow> promises w1 q = promises w q"
    using e by (simp_all add: w1_def promise_then_def new_promise_def perform_then_def fresh_promise_def)
  have ih: "jobs (all_loop a (Suc i) es w1) = jobs w1 \<and> prog (all_loop a (Suc i) es w1) = prog w1 \<and>
         alls (all_loop a (Suc i) es w1) a =
           Some ((vals @ [Undefined]) @ replicate (length es) Undefined, Suc remaining + length es) \<and>
         nextp w1 \<le> nextp (all_loop a (Suc i) es w1) \<and>
         (\<forall>q<nextp w1. q \<notin> set es \<longrightarrow> promises (all_loop a (Suc i) es w1) q = promises w1 q) \<and>
         (\<forall>q. nextp w1 \<le> q \<and> q < nextp (all_loop a (Suc i) es w1) \<longrightarrow>
              promises (all_loop a (Suc i) es w1) q = Some fresh_promise)"
  proof (rule Cons.IH)
    show "alls w1 a = Some (vals @ [Undefined], Suc remaining)" by (rule w1(4))
    show "\<forall>x\<in>set es. x < nextp w1 \<and> promises w1 x = Some fresh_promise"
      using Cons.prems(2) e w1(3,6) by auto
    show "distinct es" using Cons.prems(3) by simp
  qed
  have rep: "(vals @ [Undefined]) @ replicate (length es) Undefined =
             vals @ replicate (length (e # es)) Undefined"
    by (simp add: replicate_append_same)
  have fresh: "promises (all_loop a (Suc i) es w1) q = Some fresh_promise"
    if "?u \<le> q" "q < nextp (all_loop a (Suc i) es w1)" for q
  proof (cases "q = ?u")
    case True
    moreover have "?u \<notin> set es" using Cons.prems(2) by auto
    ultimately show ?thesis using ih e w1 by auto
  next
    case False
    with that ih w1 show ?thesis by auto
  qed
  show ?case
    unfolding step using ih e w1 fresh unfolding rep
    by auto
qed
lemma promise_all_frame:
  assumes "promise_all es w = (a, w')"
    and fresh: "\<forall>e\<in>set es. e < nextp w \<and> promises w e = Some fresh_promise"
    and dist: "distinct es" and ne: "es \<noteq> []"
  shows "a = nextp w \<and> jobs w' = jobs w \<and> prog w' = prog w \<and> nextp w < nextp w' \<and>
         (\<forall>q<nextp w. q \<notin> set es \<longrightarrow> promises w' q = promises w q) \<and>
         (\<forall>q. nextp w \<le> q \<and> q < nextp w' \<longrightarrow> promises w' q = Some fresh_promise)"
proof -
  let ?a = "nextp w"
  define w5 where "w5 = (snd (new_promise w))\<lparr>alls := (alls (snd (new_promise w)))(?a \<mapsto> ([], Suc 0))\<rparr>"
  have w5: "jobs w5 = jobs w" "nextp w5 = Suc ?a" "alls w5 ?a = Some ([], Suc 0)"
     "promises w5 ?a = Some fresh_promise" "\<forall>q. q \<noteq> ?a \<longrightarrow> promises w5 q = promises w q"
     "prog w5 = prog w"
    by (simp_all add: w5_def new_promise_def)
  define w6 where "w6 = all_loop ?a 0 es w5"
  have al: "jobs w6 = jobs w5 \<and> prog w6 = prog w5 \<and>
         alls w6 ?a = Some ([] @ replicate (length es) Undefined, Suc 0 + length es) \<and>
         nextp w5 \<le> nextp w6 \<and>
         (\<forall>q<nextp w5. q \<notin> set es \<longrightarrow> promises w6 q = promises w5 q) \<and>
         (\<forall>q. nextp w5 \<le> q \<and> q < nextp w6 \<longrightarrow> promises w6 q = Some fresh_promise)"
    unfolding w6_def
  proof (rule all_loop_frame)
    show "alls w5 ?a = Some ([], Suc 0)" by (rule w5(3))
    show "\<forall>e\<in>set es. e < nextp w5 \<and> promises w5 e = Some fresh_promise"
      using fresh w5 by auto
    show "distinct es" by (rule dist)
  qed
  have es_ne: "length es \<noteq> 0" using ne by simp
  have a_notin: "?a \<notin> set es" using fresh by auto
  have w7: "all_countdown ?a w6 = w6\<lparr>alls := (alls w6)(?a \<mapsto> (replicate (length es) Undefined, length es))\<rparr>"
    using al es_ne by (simp add: all_countdown_def Let_def)
  have pall: "promise_all es w = (?a, all_countdown ?a w6)"
    by (simp add: promise_all_def new_promise_def w6_def w5_def)
  with assms(1) have a: "a = ?a" and w': "w' = all_countdown ?a w6" by auto
  have pa: "promises w' ?a = Some fresh_promise"
    using al w5 a_notin by (simp add: w' w7)
  have fr: "promises w' q = Some fresh_promise" if "?a \<le> q" "q < nextp w'" for q
  proof (cases "q = ?a")
    case True
    with pa show ?thesis by simp
  next
    case False
    with that al w5 show ?thesis by (auto simp: w' w7)
  qed
  show ?thesis
    using a al w5 fr by (auto simp: w' w7)
qed

lemma create_internal_frame:
  assumes run: "OutlineModel_create_internal tm s w = (f, w')"
    and src: "sources (prog w) s = Some st" "\<not> requested st"
    and ne: "providers (prog w) \<noteq> []"
  shows "prog w' = (prog w)\<lparr>creates := Suc (creates (prog w)),
                          sources := (sources (prog w))(s \<mapsto> st\<lparr>listeners := listeners st @ [next_child (prog w)]\<rparr>),
                          children := (children (prog w))(next_child (prog w) \<mapsto> cts_new),
                          next_child := Suc (next_child (prog w)),
                          change_listeners := change_listeners (prog w) @
                             [(next_listener (prog w), next_child (prog w), providers (prog w))],
                          next_listener := Suc (next_listener (prog w)),
                          group_symbols := group_symbols (prog w'),
                          model_groups := model_groups (prog w'),
                          next_object := next_object (prog w'),
                          provider_calls := provider_calls (prog w')\<rparr> \<and>
         jobs w' = jobs w \<and>
         (\<forall>q<nextp w. promises w' q = promises w q) \<and>
         nextp w \<le> f \<and> f < nextp w' \<and> promises w' f = Some fresh_promise"
proof -
  let ?c = "next_child (prog w)"
  obtain cts w1 where nc: "new_child s (w\<lparr>prog := (prog w)\<lparr>creates := Suc (creates (prog w))\<rparr>\<rparr>) = (cts, w1)"
    by (cases "new_child s (w\<lparr>prog := (prog w)\<lparr>creates := Suc (creates (prog w))\<rparr>\<rparr>)")
  then have cts: "cts = ?c"
    and w1: "w1 = w\<lparr>prog := (prog w)\<lparr>creates := Suc (creates (prog w)),
                          children := (children (prog w))(?c \<mapsto> cts_new),
                          next_child := Suc ?c,
                          sources := (sources (prog w))(s \<mapsto> st\<lparr>listeners := listeners st @ [?c]\<rparr>)\<rparr>\<rparr>"
    using src by (auto simp: new_child_def cts_listen_def Let_def)
  define w2 where "w2 = w1\<lparr>prog := (prog w1)\<lparr>model_groups := (model_groups (prog w1))(next_object (prog w1) \<mapsto> []),
                                             next_object := Suc (next_object (prog w1))\<rparr>\<rparr>"
  obtain es w3 where mp: "map_providers (next_object (prog w1)) cts (providers (prog w2)) w2 = (es, w3)"
    by (cases "map_providers (next_object (prog w1)) cts (providers (prog w2)) w2")
  from map_providers_frame[OF mp] have m:
     "jobs w3 = jobs w2" "nextp w2 \<le> nextp w3"
     "\<forall>q<nextp w2. promises w3 q = promises w2 q"
     "\<forall>e\<in>set es. nextp w2 \<le> e \<and> e < nextp w3 \<and> promises w3 e = Some fresh_promise"
     "distinct es" "length es = length (providers (prog w2))"
     "prog w3 = (prog w2)\<lparr>group_symbols := group_symbols (prog w3),
                         next_object := next_object (prog w3),
                         provider_calls := provider_calls (prog w3)\<rparr>"
    by blast+
  have pv: "providers (prog w2) = providers (prog w)" by (simp add: w2_def w1)
  obtain l w4 where odc: "on_did_change cts (providers (prog w2)) w3 = (l, w4)"
    by (cases "on_did_change cts (providers (prog w2)) w3")
  then have l: "l = next_listener (prog w3)"
    and w4: "jobs w4 = jobs w3" "nextp w4 = nextp w3" "promises w4 = promises w3"
      "prog w4 = (prog w3)\<lparr>change_listeners := change_listeners (prog w3) @ [(next_listener (prog w3), cts, providers (prog w2))],
                           next_listener := Suc (next_listener (prog w3))\<rparr>"
    by (auto simp: on_did_change_def)
  obtain a w7 where pall: "promise_all es w4 = (a, w7)" by (cases "promise_all es w4")
  have "a = nextp w4 \<and> jobs w7 = jobs w4 \<and> prog w7 = prog w4 \<and> nextp w4 < nextp w7 \<and>
         (\<forall>q<nextp w4. q \<notin> set es \<longrightarrow> promises w7 q = promises w4 q) \<and>
         (\<forall>q. nextp w4 \<le> q \<and> q < nextp w7 \<longrightarrow> promises w7 q = Some fresh_promise)"
  proof (rule promise_all_frame[OF pall])
    show "\<forall>e\<in>set es. e < nextp w4 \<and> promises w4 e = Some fresh_promise" using m(4) w4 by auto
    show "distinct es" by (rule m(5))
    show "es \<noteq> []" using m(6) ne pv by auto
  qed
  then have p7: "a = nextp w4" "jobs w7 = jobs w4" "prog w7 = prog w4" "nextp w4 < nextp w7"
     "\<forall>q<nextp w4. q \<notin> set es \<longrightarrow> promises w7 q = promises w4 q"
     "\<forall>q. nextp w4 \<le> q \<and> q < nextp w7 \<longrightarrow> promises w7 q = Some fresh_promise"
    by blast+
  obtain t w8 where th: "promise_then a (Closure (AfterAll tm cts s (next_object (prog w1)))) Absent w7 = (t, w8)"
    by (cases "promise_then a (Closure (AfterAll tm cts s (next_object (prog w1)))) Absent w7")
  have pa: "promises w7 a = Some fresh_promise" using p7 by auto
  have an: "a \<noteq> nextp w7" using p7(1,4) by auto
  from th pa an have w8: "t = nextp w7" "jobs w8 = jobs w7" "nextp w8 = Suc (nextp w7)"
    "promises w8 t = Some fresh_promise"
    "\<forall>q. q \<noteq> a \<and> q \<noteq> t \<longrightarrow> promises w8 q = promises w7 q" "prog w8 = prog w7"
    by (auto simp: promise_then_def new_promise_def perform_then_def fresh_promise_def)
  have res: "OutlineModel_create_internal tm s w =
      promise_then t (Closure (ThenFinally l)) (Closure (CatchFinally l)) w8"
    using nc mp odc pall th
    by (simp add: OutlineModel_create_internal_def Let_def w2_def)
  with run have fw: "promise_then t (Closure (ThenFinally l)) (Closure (CatchFinally l)) w8 = (f, w')"
    by simp
  have ta: "t \<noteq> a" using w8(1) p7(1,4) by auto
  from fw w8 ta have w': "f = Suc (nextp w7)" "jobs w' = jobs w8" "nextp w' = Suc (Suc (nextp w7))"
    "promises w' f = Some fresh_promise"
    "\<forall>q. q \<noteq> t \<and> q \<noteq> f \<longrightarrow> promises w' q = promises w8 q" "prog w' = prog w8"
    by (auto simp: promise_then_def new_promise_def perform_then_def fresh_promise_def)
  have n2: "nextp w2 = nextp w" "jobs w2 = jobs w" "promises w2 = promises w"
    by (simp_all add: w2_def w1)
  have old: "\<forall>q<nextp w. promises w' q = promises w q"
  proof (intro allI impI)
    fix q assume q: "q < nextp w"
    then have "q < nextp w2" "q < nextp w4" "q \<notin> set es" "q \<noteq> a" "q \<noteq> t" "q \<noteq> f"
      using n2 m(2,4) w4 p7(1,4) w8(1) w'(1) by auto
    then show "promises w' q = promises w q"
      using w'(5) w8(5) p7(5) w4(3) m(3) n2 by auto
  qed
  obtain gs no pc where p3: "prog w3 = (prog w2)\<lparr>group_symbols := gs, next_object := no,
      provider_calls := pc\<rparr>"
    using m(7) by blast
  have pr: "prog w' = (prog w)\<lparr>creates := Suc (creates (prog w)),
                          sources := (sources (prog w))(s \<mapsto> st\<lparr>listeners := listeners st @ [next_child (prog w)]\<rparr>),
                          children := (children (prog w))(next_child (prog w) \<mapsto> cts_new),
                          next_child := Suc (next_child (prog w)),
                          change_listeners := change_listeners (prog w) @
                             [(next_listener (prog w), next_child (prog w), providers (prog w))],
                          next_listener := Suc (next_listener (prog w)),
                          group_symbols := group_symbols (prog w'),
                          model_groups := model_groups (prog w'),
                          next_object := next_object (prog w'),
                          provider_calls := provider_calls (prog w')\<rparr>"
    unfolding w'(6) w8(6) p7(3) w4(4) p3 by (simp add: w2_def w1 cts)
  have j: "jobs w' = jobs w" using w'(2) w8(2) p7(2) w4(1) m(1) n2(2) by simp
  have le: "nextp w \<le> f" using w'(1) p7(4) w4(2) m(2) n2(1) by simp
  have lt: "f < nextp w'" using w'(1,3) by simp
  show ?thesis
    using pr j old le lt w'(4) by blast
qed
section \<open>OutlineModel: the keys are stable\<close>

lemma hash_known:
  "list_all (\<lambda>p. key_data s p \<noteq> None) ps \<Longrightarrow>
   hash_providers ps acc s = (acc @ hash_string s ps, s)"
  by (induction ps arbitrary: acc) (auto simp: hash_string_def)

lemma hash_first:
  "hash_providers ps acc s = (h, s') \<Longrightarrow>
     list_all (\<lambda>p. key_data s' p \<noteq> None) ps \<and>
     (\<forall>p n. key_data s p = Some n \<longrightarrow> key_data s' p = Some n) \<and>
     h = acc @ hash_string s' ps \<and>
     s' = s\<lparr>key_data := key_data s', key_counter := key_counter s'\<rparr>"
proof (induction ps arbitrary: acc s h s')
  case Nil
  then show ?case by (auto simp: hash_string_def)
next
  case (Cons p ps)
  show ?case
  proof (cases "key_data s p")
    case None
    let ?s1 = "s\<lparr>key_data := (key_data s)(p \<mapsto> key_counter s), key_counter := Suc (key_counter s)\<rparr>"
    from Cons.prems None have "hash_providers ps (acc @ str_of_nat (key_counter s)) ?s1 = (h, s')"
      by simp
    from Cons.IH[OF this] have ih: "list_all (\<lambda>p. key_data s' p \<noteq> None) ps"
      "\<forall>q n. key_data ?s1 q = Some n \<longrightarrow> key_data s' q = Some n"
      "h = (acc @ str_of_nat (key_counter s)) @ hash_string s' ps"
      "s' = ?s1\<lparr>key_data := key_data s', key_counter := key_counter s'\<rparr>" by blast+
    from ih(2) have kp: "key_data s' p = Some (key_counter s)" by simp
    have ext: "\<forall>q n. key_data s q = Some n \<longrightarrow> key_data s' q = Some n"
    proof (intro allI impI)
      fix q n assume a: "key_data s q = Some n"
      with None have "q \<noteq> p" by auto
      with a have "key_data ?s1 q = Some n" by simp
      with ih(2) show "key_data s' q = Some n" by blast
    qed
    have "s' = s\<lparr>key_data := key_data s', key_counter := key_counter s'\<rparr>"
      by (subst ih(4)) simp
    with ih kp ext show ?thesis by (simp add: hash_string_def)
  next
    case (Some n)
    with Cons.prems have "hash_providers ps (acc @ str_of_nat n) s = (h, s')" by simp
    from Cons.IH[OF this] have ih: "list_all (\<lambda>p. key_data s' p \<noteq> None) ps"
      "\<forall>q n. key_data s q = Some n \<longrightarrow> key_data s' q = Some n"
      "h = (acc @ str_of_nat n) @ hash_string s' ps"
      "s' = s\<lparr>key_data := key_data s', key_counter := key_counter s'\<rparr>" by blast+
    from ih(2) Some have "key_data s' p = Some n" by simp
    with ih show ?thesis by (simp add: hash_string_def)
  qed
qed

lemma keys_for_known:
  "keys_known (prog w) \<Longrightarrow> keys_for tm True w = (om_key tm (prog w), w)"
  by (simp add: keys_for_def keys_known_def hash_known om_key_def)

lemma keys_for_first:
  assumes "keys_for tm True w = (key, wk)"
  shows "keys_known (prog wk) \<and> key = om_key tm (prog wk) \<and>
         wk = w\<lparr>prog := (prog w)\<lparr>key_data := key_data (prog wk), key_counter := key_counter (prog wk)\<rparr>\<rparr>"
proof -
  obtain h s where hp: "hash_providers (providers (prog w)) [] (prog w) = (h, s)"
    by (cases "hash_providers (providers (prog w)) [] (prog w)")
  from hash_first[OF hp] have h: "list_all (\<lambda>p. key_data s p \<noteq> None) (providers (prog w))"
    "h = hash_string s (providers (prog w))"
    "s = (prog w)\<lparr>key_data := key_data s, key_counter := key_counter s\<rparr>" by simp_all
  from h(3) have ps: "providers s = providers (prog w)" by (metis om_state.select_convs(9) om_state.surjective om_state.update_convs(12) om_state.update_convs(13))
  from assms hp have wk: "wk = w\<lparr>prog := s\<rparr>"
    and key: "key = tm_id tm @ ''/'' @ str_of_nat (tm_version tm) @ ''/'' @ h"
    by (auto simp: keys_for_def)
  show ?thesis
    using h ps by (simp add: wk key keys_known_def om_key_def)
qed

section \<open>OutlineModel: what a cancellation changes\<close>

lemma child_cancel_frame:
  "\<exists>ch. child_cancel c w = w\<lparr>prog := (prog w)\<lparr>children := ch\<rparr>\<rparr>"
proof (cases "children (prog w) c")
  case None
  then have "child_cancel c w = w\<lparr>prog := (prog w)\<lparr>children := children (prog w)\<rparr>\<rparr>"
    by (simp add: child_cancel_def)
  then show ?thesis by blast
next
  case (Some st)
  then have "child_cancel c w =
     w\<lparr>prog := (prog w)\<lparr>children := (children (prog w))(c \<mapsto> fst (cts_cancel st))\<rparr>\<rparr>"
    by (simp add: child_cancel_def)
  then show ?thesis by blast
qed

lemma fold_child_cancel_frame:
  "\<exists>ch. fold child_cancel cs w = w\<lparr>prog := (prog w)\<lparr>children := ch\<rparr>\<rparr>"
proof (induction cs arbitrary: w)
  case Nil
  have "fold child_cancel [] w = w\<lparr>prog := (prog w)\<lparr>children := children (prog w)\<rparr>\<rparr>" by simp
  then show ?case by blast
next
  case (Cons c cs)
  obtain ch1 where a: "child_cancel c w = w\<lparr>prog := (prog w)\<lparr>children := ch1\<rparr>\<rparr>"
    using child_cancel_frame by blast
  obtain ch2 where b: "fold child_cancel cs (child_cancel c w) =
      (child_cancel c w)\<lparr>prog := (prog (child_cancel c w))\<lparr>children := ch2\<rparr>\<rparr>"
    using Cons.IH by blast
  have "fold child_cancel (c # cs) w = w\<lparr>prog := (prog w)\<lparr>children := ch2\<rparr>\<rparr>"
    by (simp add: b) (simp add: a)
  then show ?case by blast
qed

lemma source_cancel_frame:
  "\<exists>so ch. source_cancel s w = w\<lparr>prog := (prog w)\<lparr>sources := so, children := ch\<rparr>\<rparr>"
proof (cases "sources (prog w) s")
  case None
  then have "source_cancel s w =
     w\<lparr>prog := (prog w)\<lparr>sources := sources (prog w), children := children (prog w)\<rparr>\<rparr>"
    by (simp add: source_cancel_def)
  then show ?thesis by blast
next
  case (Some st)
  obtain st1 cs where c: "cts_cancel st = (st1, cs)" by (cases "cts_cancel st")
  let ?w1 = "w\<lparr>prog := (prog w)\<lparr>sources := (sources (prog w))(s \<mapsto> st1)\<rparr>\<rparr>"
  have e: "source_cancel s w = fold child_cancel cs ?w1"
    using Some c by (simp add: source_cancel_def)
  obtain ch where "fold child_cancel cs ?w1 = ?w1\<lparr>prog := (prog ?w1)\<lparr>children := ch\<rparr>\<rparr>"
    using fold_child_cancel_frame by blast
  then have "source_cancel s w =
     w\<lparr>prog := (prog w)\<lparr>sources := (sources (prog w))(s \<mapsto> st1), children := ch\<rparr>\<rparr>"
    by (simp add: e)
  then show ?thesis by blast
qed

lemma run_release_frame:
  "\<exists>rq en so ch. run_release l w =
     w\<lparr>prog := (prog w)\<lparr>requests := rq, entries := en, sources := so, children := ch\<rparr>\<rparr>"
proof (cases l)
  case (Release key d)
  have triv: "w = w\<lparr>prog := (prog w)\<lparr>requests := requests (prog w), entries := entries (prog w),
      sources := sources (prog w), children := children (prog w)\<rparr>\<rparr>" by simp
  show ?thesis
  proof (cases "entries (prog w) d")
    case None
    then have "run_release l w = w" by (simp add: Release)
    with triv show ?thesis by metis
  next
    case (Some e)
    define w1 where "w1 = w\<lparr>prog := (prog w)\<lparr>entries := (entries (prog w))(d \<mapsto> e\<lparr>promiseCnt := promiseCnt e - 1\<rparr>)\<rparr>\<rparr>"
    have e: "run_release l w =
       (if promiseCnt e - 1 = 0
        then (source_cancel (source e) w1)\<lparr>prog := (prog (source_cancel (source e) w1))
           \<lparr>requests := (requests (prog (source_cancel (source e) w1)))(key := None)\<rparr>\<rparr>
        else w1)"
      using Some by (simp add: Release Let_def w1_def)
    show ?thesis
    proof (cases "promiseCnt e - 1 = 0")
      case True
      obtain so ch where sc: "source_cancel (source e) w1 =
          w1\<lparr>prog := (prog w1)\<lparr>sources := so, children := ch\<rparr>\<rparr>"
        using source_cancel_frame by blast
      have "run_release l w =
        w\<lparr>prog := (prog w)\<lparr>requests := (requests (prog w))(key := None),
            entries := (entries (prog w))(d \<mapsto> e\<lparr>promiseCnt := promiseCnt e - 1\<rparr>),
            sources := so, children := ch\<rparr>\<rparr>"
        unfolding e using True by (simp add: sc) (simp add: w1_def)
      then show ?thesis by blast
    next
      case False
      then have "run_release l w =
        w\<lparr>prog := (prog w)\<lparr>requests := requests (prog w),
            entries := (entries (prog w))(d \<mapsto> e\<lparr>promiseCnt := promiseCnt e - 1\<rparr>),
            sources := sources (prog w), children := children (prog w)\<rparr>\<rparr>"
        unfolding e by (simp add: w1_def)
      then show ?thesis by blast
    qed
  qed
qed

lemma fold_run_release_frame:
  "\<exists>rq en so ch. fold run_release ls w =
     w\<lparr>prog := (prog w)\<lparr>requests := rq, entries := en, sources := so, children := ch\<rparr>\<rparr>"
proof (induction ls arbitrary: w)
  case Nil
  have "fold run_release [] w = w\<lparr>prog := (prog w)\<lparr>requests := requests (prog w),
      entries := entries (prog w), sources := sources (prog w), children := children (prog w)\<rparr>\<rparr>"
    by simp
  then show ?case by blast
next
  case (Cons l ls)
  obtain rq en so ch where a: "run_release l w =
     w\<lparr>prog := (prog w)\<lparr>requests := rq, entries := en, sources := so, children := ch\<rparr>\<rparr>"
    using run_release_frame by blast
  obtain rq2 en2 so2 ch2 where b: "fold run_release ls (run_release l w) =
     (run_release l w)\<lparr>prog := (prog (run_release l w))
        \<lparr>requests := rq2, entries := en2, sources := so2, children := ch2\<rparr>\<rparr>"
    using Cons.IH by blast
  have "fold run_release (l # ls) w =
     w\<lparr>prog := (prog w)\<lparr>requests := rq2, entries := en2, sources := so2, children := ch2\<rparr>\<rparr>"
    by (simp add: b) (simp add: a)
  then show ?case by blast
qed

lemma token_listen_frame:
  "\<exists>rq en so ch ct. token_listen t l w =
     w\<lparr>prog := (prog w)\<lparr>requests := rq, entries := en, sources := so, children := ch,
                         caller_tokens := ct\<rparr>\<rparr>"
proof (cases "caller_tokens (prog w) t")
  case None
  then have "token_listen t l w = w\<lparr>prog := (prog w)\<lparr>requests := requests (prog w),
      entries := entries (prog w), sources := sources (prog w), children := children (prog w),
      caller_tokens := caller_tokens (prog w)\<rparr>\<rparr>"
    by (simp add: token_listen_def)
  then show ?thesis by blast
next
  case (Some st)
  obtain st1 now where c: "cts_listen l st = (st1, now)" by (cases "cts_listen l st")
  let ?w1 = "w\<lparr>prog := (prog w)\<lparr>caller_tokens := (caller_tokens (prog w))(t \<mapsto> st1)\<rparr>\<rparr>"
  have e: "token_listen t l w = (if now then run_release l ?w1 else ?w1)"
    using Some c by (simp add: token_listen_def Let_def)
  obtain rq en so ch where a: "run_release l ?w1 =
     ?w1\<lparr>prog := (prog ?w1)\<lparr>requests := rq, entries := en, sources := so, children := ch\<rparr>\<rparr>"
    using run_release_frame by blast
  show ?thesis
  proof (cases now)
    case True
    then have "token_listen t l w = w\<lparr>prog := (prog w)\<lparr>requests := rq, entries := en,
       sources := so, children := ch, caller_tokens := (caller_tokens (prog w))(t \<mapsto> st1)\<rparr>\<rparr>"
      by (simp add: e a)
    then show ?thesis by blast
  next
    case False
    then have "token_listen t l w = w\<lparr>prog := (prog w)\<lparr>requests := requests (prog w),
      entries := entries (prog w), sources := sources (prog w), children := children (prog w),
      caller_tokens := (caller_tokens (prog w))(t \<mapsto> st1)\<rparr>\<rparr>"
      by (simp add: e)
    then show ?thesis by blast
  qed
qed

lemma token_cancel_frame:
  "\<exists>rq en so ch ct. token_cancel t w =
     w\<lparr>prog := (prog w)\<lparr>requests := rq, entries := en, sources := so, children := ch,
                         caller_tokens := ct\<rparr>\<rparr>"
proof (cases "caller_tokens (prog w) t")
  case None
  then have "token_cancel t w = w\<lparr>prog := (prog w)\<lparr>requests := requests (prog w),
      entries := entries (prog w), sources := sources (prog w), children := children (prog w),
      caller_tokens := caller_tokens (prog w)\<rparr>\<rparr>"
    by (simp add: token_cancel_def)
  then show ?thesis by blast
next
  case (Some st)
  obtain st1 ls where c: "cts_cancel st = (st1, ls)" by (cases "cts_cancel st")
  let ?w1 = "w\<lparr>prog := (prog w)\<lparr>caller_tokens := (caller_tokens (prog w))(t \<mapsto> st1)\<rparr>\<rparr>"
  have e: "token_cancel t w = fold run_release ls ?w1"
    using Some c by (simp add: token_cancel_def)
  obtain rq en so ch where a: "fold run_release ls ?w1 =
     ?w1\<lparr>prog := (prog ?w1)\<lparr>requests := rq, entries := en, sources := so, children := ch\<rparr>\<rparr>"
    using fold_run_release_frame by blast
  have "token_cancel t w = w\<lparr>prog := (prog w)\<lparr>requests := rq, entries := en,
       sources := so, children := ch, caller_tokens := (caller_tokens (prog w))(t \<mapsto> st1)\<rparr>\<rparr>"
    by (simp add: e a)
  then show ?thesis by blast
qed

end
